theory Spec2Isabelle
  imports Main "HOL-Library.Sublist"
begin

section \<open>Tokens\<close>

text \<open>
  The kinds of \<^verbatim>\<open>Token::TokenKind\<close> that \<^verbatim>\<open>Parser.cpp\<close> names. The enumeration itself
  is declared in a header that is not among the sources; \<^verbatim>\<open>Token::k\<close> is written
  \<open>Token_k\<close>. \<open>Token_unknown\<close> stands for every kind the parser never names.
\<close>

datatype TokenKind =
    Token_eoi | Token_unknown | Token_ident | Token_number
  | Token_KW_int | Token_KW_bool | Token_KW_if | Token_KW_elif | Token_KW_else
  | Token_KW_while | Token_KW_for | Token_KW_print | Token_KW_begin | Token_KW_end
  | Token_KW_and | Token_KW_or | Token_true | Token_false
  | Token_assign | Token_plus_assign | Token_minus_assign | Token_star_assign
  | Token_slash_assign
  | Token_eq | Token_neq | Token_gt | Token_lt | Token_gte | Token_lte
  | Token_plus | Token_minus | Token_star | Token_slash | Token_mod | Token_exp
  | Token_plus_plus | Token_minus_minus
  | Token_l_paren | Token_r_paren | Token_comma | Token_semicolon | Token_colon

record Token =
  getKind :: TokenKind
  getText :: string

section \<open>The AST node model (AST.h)\<close>

datatype Final_ValueKind = Final_Ident | Final_Number | Final_True | Final_False

datatype BinaryOp_Operator =
  BinaryOp_Plus | BinaryOp_Minus | BinaryOp_Mul | BinaryOp_Div | BinaryOp_Mod | BinaryOp_Exp

datatype UnaryOp_Operator = UnaryOp_Plus_plus | UnaryOp_Minus_minus

datatype SignedNumber_Sign = SignedNumber_Plus | SignedNumber_Minus

text \<open>
  The subclasses of \<^verbatim>\<open>Expr\<close>. The constructor arguments are in the order of the C++
  constructors: \<^verbatim>\<open>Final(Kind, Val)\<close>, \<^verbatim>\<open>BinaryOp(Op, L, R)\<close>, \<^verbatim>\<open>UnaryOp(Op, I)\<close>,
  \<^verbatim>\<open>SignedNumber(S, V)\<close>, and the node that \<^verbatim>\<open>new NegExpr(math_expr)\<close> builds.
\<close>

datatype Expr =
    Final Final_ValueKind string
  | BinaryOp BinaryOp_Operator Expr Expr
  | UnaryOp UnaryOp_Operator string
  | SignedNumber SignedNumber_Sign string
  | NegExpr Expr

datatype Comparison_Operator =
    Comparison_Equal | Comparison_Not_equal | Comparison_Greater | Comparison_Less
  | Comparison_Greater_equal | Comparison_Less_equal
  | Comparison_True | Comparison_False | Comparison_Ident

datatype LogicalExpr_Operator = LogicalExpr_And | LogicalExpr_Or

text \<open>
  The subclasses of \<^verbatim>\<open>Logic\<close>. \<open>ComparisonNode\<close> lists the four data members of class
  \<^verbatim>\<open>Comparison\<close>: \<^verbatim>\<open>Left\<close> and \<^verbatim>\<open>Right\<close> (a null pointer is \<open>None\<close>), \<^verbatim>\<open>Op\<close> and
  \<^verbatim>\<open>Value\<close>. The member \<^verbatim>\<open>Op\<close> is an \<open>option\<close>: \<open>None\<close> is a member that no
  constructor has written.
\<close>

datatype Logic =
    ComparisonNode (getLeft: "Expr option") (getRight: "Expr option")
                   (getOperator: "Comparison_Operator option") (getValue: string)
  | LogicalExpr Logic Logic LogicalExpr_Operator

text \<open>
  The constructor of class \<^verbatim>\<open>Comparison\<close>:
  \<^verbatim>\<open>Comparison(Expr *L, Expr *R, Operator Opm, llvm::StringRef V)
      : Left(L), Right(R), Op(Op), Value(V) {}\<close>
  The third parameter is called \<^verbatim>\<open>Opm\<close>; the initialiser \<^verbatim>\<open>Op(Op)\<close> names the member on
  both sides, so the parameter is never read and the member is never written.
\<close>

definition Comparison :: "Expr option \<Rightarrow> Expr option \<Rightarrow> Comparison_Operator \<Rightarrow> string \<Rightarrow> Logic" where
  "Comparison L R Opm V = ComparisonNode L R None V"

section \<open>The token source and the parser state\<close>

text \<open>
  Modelled from the spec: the token source. \<^verbatim>\<open>Parser.h\<close> and the lexer (the members
  \<^verbatim>\<open>Tok\<close>, \<^verbatim>\<open>advance\<close>, \<^verbatim>\<open>expect\<close>, \<^verbatim>\<open>consume\<close>, \<^verbatim>\<open>error\<close>) are not among the sources.
  The spec (4.1) describes a cursor over a finite sequence of tokens with the operations
  current, advance and is-of-kind, an end-of-input sentinel kind, and the parser's right to
  snapshot and restore the current token. Here the cursor is the list \<open>toks\<close> of the
  tokens not yet consumed: its head is the current token, the empty list is the
  end-of-input sentinel, and restoring a snapshot \<^verbatim>\<open>Tok = prev_token\<close> puts the cursor
  back where the snapshot was taken. Advancing at the sentinel stays there. \<^verbatim>\<open>error()\<close>
  reports one diagnostic: \<open>diags\<close> collects the tokens at which it was called.
  \<open>haveElse\<close> is the global variable of \<^verbatim>\<open>Parser.cpp\<close>.
\<close>

record Parser =
  toks :: "Token list"
  diags :: "Token list"
  haveElse :: bool

definition Tok :: "Parser \<Rightarrow> Token" where
  "Tok s = (case toks s of [] \<Rightarrow> \<lparr>getKind = Token_eoi, getText = []\<rparr> | t # _ \<Rightarrow> t)"

definition is_kind :: "Parser \<Rightarrow> TokenKind \<Rightarrow> bool" where
  "is_kind s k = (getKind (Tok s) = k)"

definition advance :: "Parser \<Rightarrow> Parser" where
  "advance s = (if getKind (Tok s) = Token_eoi then s else s\<lparr>toks := tl (toks s)\<rparr>)"

definition error :: "Parser \<Rightarrow> Parser" where
  "error s = s\<lparr>diags := diags s @ [Tok s]\<rparr>"

text \<open>\<^verbatim>\<open>expect(K)\<close> is true when the current token is not of kind \<^verbatim>\<open>K\<close>, and then it
  has reported; \<^verbatim>\<open>consume(K)\<close> also advances when the kind is the expected one.\<close>

definition expect :: "TokenKind \<Rightarrow> Parser \<Rightarrow> bool \<times> Parser" where
  "expect K s = (if getKind (Tok s) \<noteq> K then (True, error s) else (False, s))"

definition consume :: "TokenKind \<Rightarrow> Parser \<Rightarrow> bool \<times> Parser" where
  "consume K s = (case expect K s of (True, s') \<Rightarrow> (True, s') | (False, s') \<Rightarrow> (False, advance s'))"

text \<open>The loop under every \<^verbatim>\<open>_error:\<close> label:
  \<^verbatim>\<open>while (Tok.getKind() != Token::eoi) advance();\<close>\<close>

definition recover :: "Parser \<Rightarrow> Parser" where
  "recover s = s\<lparr>toks := dropWhile (\<lambda>t. getKind t \<noteq> Token_eoi) (toks s)\<rparr>"

text \<open>
  A routine returns a pointer and leaves the parser in a new state. The recursion of the
  routines is bounded by a fuel argument: the outer \<open>None\<close> is "fuel exhausted", the inner
  \<open>None\<close> is the null pointer.
\<close>

type_synonym 'a result = "('a option \<times> Parser) option"

section \<open>Arithmetic expressions (Parser.cpp, parseExpr to parseFinal)\<close>

fun parseExpr :: "nat \<Rightarrow> Parser \<Rightarrow> Expr result"
  and parseExpr_loop :: "nat \<Rightarrow> Expr \<Rightarrow> Parser \<Rightarrow> Expr result"
  and parseTerm :: "nat \<Rightarrow> Parser \<Rightarrow> Expr result"
  and parseTerm_loop :: "nat \<Rightarrow> Expr \<Rightarrow> Parser \<Rightarrow> Expr result"
  and parseFactor :: "nat \<Rightarrow> Parser \<Rightarrow> Expr result"
  and parseFactor_loop :: "nat \<Rightarrow> Expr \<Rightarrow> Parser \<Rightarrow> Expr result"
  and parseFinal :: "nat \<Rightarrow> Parser \<Rightarrow> Expr result"
where
  "parseExpr 0 s = None"
| "parseExpr (Suc n) s =
    (case parseTerm n s of
       None \<Rightarrow> None
     | Some (None, s1) \<Rightarrow> Some (None, recover s1)
     | Some (Some L, s1) \<Rightarrow> parseExpr_loop n L s1)"
| "parseExpr_loop 0 L s = None"
| "parseExpr_loop (Suc n) L s =
    (if is_kind s Token_plus \<or> is_kind s Token_minus then
       (case (if is_kind s Token_plus then Some BinaryOp_Plus
              else if is_kind s Token_minus then Some BinaryOp_Minus
              else None) of
          None \<Rightarrow> Some (None, recover (error s))
        | Some Op \<Rightarrow>
            (case parseTerm n (advance s) of
               None \<Rightarrow> None
             | Some (None, s1) \<Rightarrow> Some (None, recover s1)
             | Some (Some R, s1) \<Rightarrow> parseExpr_loop n (BinaryOp Op L R) s1))
     else Some (Some L, s))"
| "parseTerm 0 s = None"
| "parseTerm (Suc n) s =
    (case parseFactor n s of
       None \<Rightarrow> None
     | Some (None, s1) \<Rightarrow> Some (None, recover s1)
     | Some (Some L, s1) \<Rightarrow> parseTerm_loop n L s1)"
| "parseTerm_loop 0 L s = None"
| "parseTerm_loop (Suc n) L s =
    (if is_kind s Token_star \<or> is_kind s Token_mod \<or> is_kind s Token_slash then
       (case (if is_kind s Token_star then Some BinaryOp_Mul
              else if is_kind s Token_slash then Some BinaryOp_Div
              else if is_kind s Token_mod then Some BinaryOp_Mod
              else None) of
          None \<Rightarrow> Some (None, recover (error s))
        | Some Op \<Rightarrow>
            (case parseFactor n (advance s) of
               None \<Rightarrow> None
             | Some (None, s1) \<Rightarrow> Some (None, recover s1)
             | Some (Some R, s1) \<Rightarrow> parseTerm_loop n (BinaryOp Op L R) s1))
     else Some (Some L, s))"
| "parseFactor 0 s = None"
| "parseFactor (Suc n) s =
    (case parseFinal n s of
       None \<Rightarrow> None
     | Some (None, s1) \<Rightarrow> Some (None, recover s1)
     | Some (Some L, s1) \<Rightarrow> parseFactor_loop n L s1)"
| "parseFactor_loop 0 L s = None"
| "parseFactor_loop (Suc n) L s =
    (if is_kind s Token_exp then
       (case (if is_kind s Token_exp then Some BinaryOp_Exp else None) of
          None \<Rightarrow> Some (None, recover (error s))
        | Some Op \<Rightarrow>
            (case parseFactor n (advance s) of
               None \<Rightarrow> None
             | Some (None, s1) \<Rightarrow> Some (None, recover s1)
             | Some (Some R, s1) \<Rightarrow> parseFactor_loop n (BinaryOp Op L R) s1))
     else Some (Some L, s))"
| "parseFinal 0 s = None"
| "parseFinal (Suc n) s =
    (if is_kind s Token_number then
       Some (Some (Final Final_Number (getText (Tok s))), advance s)
     else if is_kind s Token_ident then
       (let prev_tok = Tok s; s1 = advance s in
        if getKind (Tok s1) = Token_plus_plus then
          Some (Some (UnaryOp UnaryOp_Plus_plus (getText prev_tok)), advance s1)
        else if getKind (Tok s1) = Token_minus_minus then
          Some (Some (UnaryOp UnaryOp_Minus_minus (getText prev_tok)), advance s1)
        else Some (Some (Final Final_Ident (getText prev_tok)), s1))
     else if is_kind s Token_plus then
       (let s1 = advance s in
        if getKind (Tok s1) = Token_number then
          Some (Some (SignedNumber SignedNumber_Plus (getText (Tok s1))), advance s1)
        else Some (None, recover s1))
     else if is_kind s Token_minus then
       (let s1 = advance s in
        if getKind (Tok s1) = Token_number then
          Some (Some (SignedNumber SignedNumber_Minus (getText (Tok s1))), advance s1)
        else if getKind (Tok s1) = Token_l_paren then
          (case parseExpr n (advance s1) of
             None \<Rightarrow> None
           | Some (None, s2) \<Rightarrow> Some (None, recover s2)
           | Some (Some math_expr, s2) \<Rightarrow>
               (case consume Token_r_paren s2 of
                  (False, s3) \<Rightarrow> Some (Some (NegExpr math_expr), s3)
                | (True, s3) \<Rightarrow> Some (None, recover s3)))
        else Some (None, recover s1))
     else if is_kind s Token_l_paren then
       (case parseExpr n (advance s) of
          None \<Rightarrow> None
        | Some (None, s1) \<Rightarrow> Some (None, recover s1)
        | Some (Some Res, s1) \<Rightarrow>
            (case consume Token_r_paren s1 of
               (False, s2) \<Rightarrow> Some (Some Res, s2)
             | (True, s2) \<Rightarrow> Some (None, recover s2)))
     else Some (None, recover (error s)))"

section \<open>Logic expressions (Parser.cpp, parseComparison and parseLogic)\<close>

fun parseComparison :: "nat \<Rightarrow> Parser \<Rightarrow> Logic result"
  and parseLogic :: "nat \<Rightarrow> Parser \<Rightarrow> Logic result"
  and parseLogic_loop :: "nat \<Rightarrow> Logic \<Rightarrow> Parser \<Rightarrow> Logic result"
where
  "parseComparison 0 s = None"
| "parseComparison (Suc n) s =
    (if is_kind s Token_l_paren then
       (case parseLogic n (advance s) of
          None \<Rightarrow> None
        | Some (None, s1) \<Rightarrow> Some (None, recover s1)
        | Some (Some Res, s1) \<Rightarrow>
            (case consume Token_r_paren s1 of
               (True, s2) \<Rightarrow> Some (None, recover s2)
             | (False, s2) \<Rightarrow> Some (Some Res, s2)))
     else if is_kind s Token_true then
       Some (Some (Comparison None None Comparison_True (getText (Tok s))), advance s)
     else if is_kind s Token_false then
       Some (Some (Comparison None None Comparison_False (getText (Tok s))), advance s)
     else if is_kind s Token_ident then
       Some (Some (Comparison None None Comparison_Ident (getText (Tok s))), advance s)
     else
       (case parseExpr n s of
          None \<Rightarrow> None
        | Some (None, s1) \<Rightarrow> Some (None, recover s1)
        | Some (Some L, s1) \<Rightarrow>
            (case (if is_kind s1 Token_eq then Some Comparison_Equal
                   else if is_kind s1 Token_neq then Some Comparison_Not_equal
                   else if is_kind s1 Token_gt then Some Comparison_Greater
                   else if is_kind s1 Token_lt then Some Comparison_Less
                   else if is_kind s1 Token_gte then Some Comparison_Greater_equal
                   else if is_kind s1 Token_lte then Some Comparison_Less_equal
                   else None) of
               None \<Rightarrow> Some (None, recover (error s1))
             | Some Op \<Rightarrow>
                 (case parseExpr n (advance s1) of
                    None \<Rightarrow> None
                  | Some (None, s2) \<Rightarrow> Some (None, recover s2)
                  | Some (Some R, s2) \<Rightarrow>
                      Some (Some (Comparison (Some L) (Some R) Op (getText (Tok s2))), s2)))))"
| "parseLogic 0 s = None"
| "parseLogic (Suc n) s =
    (case parseComparison n s of
       None \<Rightarrow> None
     | Some (None, s1) \<Rightarrow> Some (None, recover s1)
     | Some (Some L, s1) \<Rightarrow> parseLogic_loop n L s1)"
| "parseLogic_loop 0 L s = None"
| "parseLogic_loop (Suc n) L s =
    (if is_kind s Token_KW_and \<or> is_kind s Token_KW_or then
       (case (if is_kind s Token_KW_and then Some LogicalExpr_And
              else if is_kind s Token_KW_or then Some LogicalExpr_Or
              else None) of
          None \<Rightarrow> Some (None, recover (error s))
        | Some Op \<Rightarrow>
            (case parseComparison n (advance s) of
               None \<Rightarrow> None
             | Some (None, s1) \<Rightarrow> Some (None, recover s1)
             | Some (Some R, s1) \<Rightarrow> parseLogic_loop n (LogicalExpr L R Op) s1))
     else Some (Some L, s))"

section \<open>Assignments and the unary statement (parseAssign, parseUnary)\<close>

datatype Assignment_AssignKind =
  Assignment_Assign | Assignment_Minus_assign | Assignment_Plus_assign
  | Assignment_Star_assign | Assignment_Slash_assign

text \<open>Class \<^verbatim>\<open>Assignment\<close>, with the arguments of its constructor
  \<^verbatim>\<open>Assignment(Final *L, Expr *RE, AssignKind AK, LogicalExpr *RL)\<close>. The target is
  whatever \<^verbatim>\<open>parseFinal\<close> returned, cast to \<^verbatim>\<open>Final *\<close>.\<close>

datatype Assignment =
  Assignment (getTarget: Expr) (getRightExpr: "Expr option")
             (getAssignKind: Assignment_AssignKind) (getRightLogic: "Logic option")

text \<open>The end of \<^verbatim>\<open>parseAssign\<close>, reached from every operator:
  \<^verbatim>\<open>advance(); E = parseExpr(); if (E) return new Assignment(F, E, AK, nullptr);\<close>\<close>

definition parseAssign_expr :: "nat \<Rightarrow> Expr \<Rightarrow> Assignment_AssignKind \<Rightarrow> Parser \<Rightarrow> Assignment result" where
  "parseAssign_expr n F AK s =
    (case parseExpr n (advance s) of
       None \<Rightarrow> None
     | Some (None, s1) \<Rightarrow> Some (None, recover s1)
     | Some (Some E, s1) \<Rightarrow> Some (Some (Assignment F (Some E) AK None), s1))"

definition parseAssign :: "nat \<Rightarrow> Parser \<Rightarrow> Assignment result" where
  "parseAssign n s =
    (case parseFinal n s of
       None \<Rightarrow> None
     | Some (None, s1) \<Rightarrow> Some (None, recover s1)
     | Some (Some F, s1) \<Rightarrow>
         (if is_kind s1 Token_assign then
            (case parseLogic n (advance s1) of
               None \<Rightarrow> None
             | Some (Some L, s2) \<Rightarrow> Some (Some (Assignment F None Assignment_Assign (Some L)), s2)
             | Some (None, s2) \<Rightarrow> parseAssign_expr n F Assignment_Assign (s2\<lparr>toks := toks s1\<rparr>))
          else if is_kind s1 Token_plus_assign then parseAssign_expr n F Assignment_Plus_assign s1
          else if is_kind s1 Token_minus_assign then parseAssign_expr n F Assignment_Minus_assign s1
          else if is_kind s1 Token_star_assign then parseAssign_expr n F Assignment_Star_assign s1
          else if is_kind s1 Token_slash_assign then parseAssign_expr n F Assignment_Slash_assign s1
          else Some (None, recover (error s1))))"

definition parseUnary :: "Parser \<Rightarrow> Expr option \<times> Parser" where
  "parseUnary s =
    (case expect Token_ident s of
       (True, s1) \<Rightarrow> (None, recover s1)
     | (False, s1) \<Rightarrow>
         (let var = getText (Tok s1); s2 = advance s1 in
          if getKind (Tok s2) = Token_plus_plus then
            (Some (UnaryOp UnaryOp_Plus_plus var), advance s2)
          else if getKind (Tok s2) = Token_minus_minus then
            (Some (UnaryOp UnaryOp_Minus_minus var), advance s2)
          else (None, recover s2)))"

section \<open>Declarations (parseIntDec, parseBoolDec)\<close>

text \<open>Class \<^verbatim>\<open>Declaration\<close>: the names and the initialisers. \<^verbatim>\<open>parseIntDec\<close> stores what
  \<^verbatim>\<open>parseExpr\<close> returns and \<^verbatim>\<open>parseBoolDec\<close> what \<^verbatim>\<open>parseLogic\<close> returns in the same
  vector \<^verbatim>\<open>Values\<close>.\<close>

datatype Value = ExprValue Expr | LogicValue Logic

datatype Declaration = Declaration (getVars: "string list") (getValues: "Value list")

text \<open>The first loop of both routines:
  \<^verbatim>\<open>while (Tok.is(Token::comma)) { advance(); if (expect(Token::ident)) goto _error;
       Vars.push_back(Tok.getText()); count++; advance(); }\<close>\<close>

fun parseDec_vars :: "nat \<Rightarrow> string list \<Rightarrow> int \<Rightarrow> Parser \<Rightarrow> (string list \<times> int) result" where
  "parseDec_vars 0 Vars count s = None"
| "parseDec_vars (Suc n) Vars count s =
    (if is_kind s Token_comma then
       (case expect Token_ident (advance s) of
          (True, s1) \<Rightarrow> Some (None, recover s1)
        | (False, s1) \<Rightarrow> parseDec_vars n (Vars @ [getText (Tok s1)]) (count + 1) (advance s1))
     else Some (Some (Vars, count), s))"

text \<open>The two routines differ in the keyword and in the routine that parses one
  initialiser, \<^verbatim>\<open>parseExpr\<close> or \<^verbatim>\<open>parseLogic\<close>; \<open>parseInit\<close> is that routine.\<close>

definition parseInit :: "bool \<Rightarrow> nat \<Rightarrow> Parser \<Rightarrow> Value result" where
  "parseInit isBool n s =
    (if isBool then
       (case parseLogic n s of None \<Rightarrow> None | Some (E, s1) \<Rightarrow> Some (map_option LogicValue E, s1))
     else
       (case parseExpr n s of None \<Rightarrow> None | Some (E, s1) \<Rightarrow> Some (map_option ExprValue E, s1)))"

text \<open>The second loop:
  \<^verbatim>\<open>while (Tok.is(Token::comma)) { if (count == 0) { error(); goto _error; }
       advance(); E = parseExpr(); if (E) { Values.push_back(E); count--; } else goto _error; }\<close>\<close>

fun parseDec_values :: "bool \<Rightarrow> nat \<Rightarrow> Value list \<Rightarrow> int \<Rightarrow> Parser \<Rightarrow> Value list result" where
  "parseDec_values isBool 0 Values count s = None"
| "parseDec_values isBool (Suc n) Values count s =
    (if is_kind s Token_comma then
       (if count = 0 then Some (None, recover (error s))
        else
          (case parseInit isBool n (advance s) of
             None \<Rightarrow> None
           | Some (None, s1) \<Rightarrow> Some (None, recover s1)
           | Some (Some E, s1) \<Rightarrow> parseDec_values isBool n (Values @ [E]) (count - 1) s1))
     else Some (Some Values, s))"

definition parseDec :: "bool \<Rightarrow> nat \<Rightarrow> Parser \<Rightarrow> Declaration result" where
  "parseDec isBool n s =
    (case expect (if isBool then Token_KW_bool else Token_KW_int) s of
       (True, s1) \<Rightarrow> Some (None, recover s1)
     | (False, s1) \<Rightarrow>
    (case expect Token_ident (advance s1) of
       (True, s2) \<Rightarrow> Some (None, recover s2)
     | (False, s2) \<Rightarrow>
    (case parseDec_vars n [getText (Tok s2)] 1 (advance s2) of
       None \<Rightarrow> None
     | Some (None, s3) \<Rightarrow> Some (None, s3)
     | Some (Some (Vars, count), s3) \<Rightarrow>
    (case (if is_kind s3 Token_assign then
             (case parseInit isBool n (advance s3) of
                None \<Rightarrow> None
              | Some (None, s4) \<Rightarrow> Some (None, recover s4)
              | Some (Some E, s4) \<Rightarrow> parseDec_values isBool n [E] (count - 1) s4)
           else Some (Some [], s3)) of
       None \<Rightarrow> None
     | Some (None, s5) \<Rightarrow> Some (None, s5)
     | Some (Some Values, s5) \<Rightarrow>
    (case expect Token_semicolon s5 of
       (True, s6) \<Rightarrow> Some (None, recover s6)
     | (False, s6) \<Rightarrow> Some (Some (Declaration Vars Values), s6))))))"

definition parseIntDec :: "nat \<Rightarrow> Parser \<Rightarrow> Declaration result" where
  "parseIntDec = parseDec False"

definition parseBoolDec :: "nat \<Rightarrow> Parser \<Rightarrow> Declaration result" where
  "parseBoolDec = parseDec True"

section \<open>The if statement (parseIf)\<close>

datatype elifStmt = elifStmt (getElifCond: Logic) (getElifAssignments: "Assignment list")

text \<open>Class \<^verbatim>\<open>IfStmt\<close>, with the arguments of its constructor
  \<^verbatim>\<open>IfStmt(Cond, ifAssignments, elseAssignments, elifStmts)\<close>.\<close>

datatype IfStmt =
  IfStmt (getCond: Logic) (getIfAssignments: "Assignment list")
         (getElseAssignments: "Assignment list") (getElifStmts: "elifStmt list")

text \<open>The block loop, written three times in \<^verbatim>\<open>parseIf\<close> (then, elif and else block):
  \<^verbatim>\<open>while (!Tok.is(Token::KW_end)) { a = parseAssign(); if (a) v.push_back(a);
       else goto _error; if (expect(Token::semicolon)) goto _error; advance(); }\<close>\<close>

fun parseIf_block :: "nat \<Rightarrow> Assignment list \<Rightarrow> Parser \<Rightarrow> Assignment list result" where
  "parseIf_block 0 assignments s = None"
| "parseIf_block (Suc n) assignments s =
    (if \<not> is_kind s Token_KW_end then
       (case parseAssign n s of
          None \<Rightarrow> None
        | Some (None, s1) \<Rightarrow> Some (None, recover s1)
        | Some (Some a, s1) \<Rightarrow>
            (case expect Token_semicolon s1 of
               (True, s2) \<Rightarrow> Some (None, recover s2)
             | (False, s2) \<Rightarrow> parseIf_block n (assignments @ [a]) (advance s2)))
     else Some (Some assignments, s))"

text \<open>The condition and the block that follow \<^verbatim>\<open>if\<close> and \<^verbatim>\<open>elif\<close>:
  \<^verbatim>\<open>Cond = parseLogic(); expect(colon); advance(); expect(KW_begin); advance();\<close> and the
  block loop, which stops at \<^verbatim>\<open>end\<close> without consuming it.\<close>

definition parseIf_cond_block :: "nat \<Rightarrow> Parser \<Rightarrow> (Logic \<times> Assignment list) result" where
  "parseIf_cond_block n s =
    (case parseLogic n s of
       None \<Rightarrow> None
     | Some (None, s1) \<Rightarrow> Some (None, recover s1)
     | Some (Some Cond, s1) \<Rightarrow>
    (case expect Token_colon s1 of
       (True, s2) \<Rightarrow> Some (None, recover s2)
     | (False, s2) \<Rightarrow>
    (case expect Token_KW_begin (advance s2) of
       (True, s3) \<Rightarrow> Some (None, recover s3)
     | (False, s3) \<Rightarrow>
    (case parseIf_block n [] (advance s3) of
       None \<Rightarrow> None
     | Some (None, s4) \<Rightarrow> Some (None, s4)
     | Some (Some assignments, s4) \<Rightarrow> Some (Some (Cond, assignments), s4)))))"

text \<open>\<^verbatim>\<open>while (Tok.is(Token::KW_elif)) { advance(); ...; elifStmts.push_back(elif); advance(); }\<close>\<close>

fun parseIf_elifs :: "nat \<Rightarrow> elifStmt list \<Rightarrow> Parser \<Rightarrow> elifStmt list result" where
  "parseIf_elifs 0 elifStmts s = None"
| "parseIf_elifs (Suc n) elifStmts s =
    (if is_kind s Token_KW_elif then
       (case parseIf_cond_block n (advance s) of
          None \<Rightarrow> None
        | Some (None, s1) \<Rightarrow> Some (None, s1)
        | Some (Some (Cond, elifAssignments), s1) \<Rightarrow>
            parseIf_elifs n (elifStmts @ [elifStmt Cond elifAssignments]) (advance s1))
     else Some (Some elifStmts, s))"

text \<open>The optional else clause, the last part of \<^verbatim>\<open>parseIf\<close>. It sets \<^verbatim>\<open>haveElse\<close> and
  leaves the closing \<^verbatim>\<open>end\<close> as the current token.\<close>

definition parseIf_else :: "nat \<Rightarrow> Parser \<Rightarrow> Assignment list result" where
  "parseIf_else n s =
    (if is_kind s Token_KW_else then
       (case expect Token_colon (advance (s\<lparr>haveElse := True\<rparr>)) of
          (True, s1) \<Rightarrow> Some (None, recover s1)
        | (False, s1) \<Rightarrow>
       (case expect Token_KW_begin (advance s1) of
          (True, s2) \<Rightarrow> Some (None, recover s2)
        | (False, s2) \<Rightarrow> parseIf_block n [] (advance s2)))
     else Some (Some [], s))"

text \<open>The statement up to the end of the elif loop: \<^verbatim>\<open>haveElse = false\<close>, the keyword, the
  condition and the then block, \<^verbatim>\<open>advance()\<close> over its \<^verbatim>\<open>end\<close>, and the elif clauses.\<close>

definition parseIf_elif_part :: "nat \<Rightarrow> Parser \<Rightarrow> (Logic \<times> Assignment list \<times> elifStmt list) result" where
  "parseIf_elif_part n s =
    (case expect Token_KW_if (s\<lparr>haveElse := False\<rparr>) of
       (True, s1) \<Rightarrow> Some (None, recover s1)
     | (False, s1) \<Rightarrow>
    (case parseIf_cond_block n (advance s1) of
       None \<Rightarrow> None
     | Some (None, s2) \<Rightarrow> Some (None, s2)
     | Some (Some (Cond, ifAssignments), s2) \<Rightarrow>
    (case parseIf_elifs n [] (advance s2) of
       None \<Rightarrow> None
     | Some (None, s3) \<Rightarrow> Some (None, s3)
     | Some (Some elifStmts, s3) \<Rightarrow> Some (Some (Cond, ifAssignments, elifStmts), s3))))"

definition parseIf :: "nat \<Rightarrow> Parser \<Rightarrow> IfStmt result" where
  "parseIf n s =
    (case parseIf_elif_part n s of
       None \<Rightarrow> None
     | Some (None, s1) \<Rightarrow> Some (None, s1)
     | Some (Some (Cond, ifAssignments, elifStmts), s1) \<Rightarrow>
    (case parseIf_else n s1 of
       None \<Rightarrow> None
     | Some (None, s2) \<Rightarrow> Some (None, s2)
     | Some (Some elseAssignments, s2) \<Rightarrow>
         Some (Some (IfStmt Cond ifAssignments elseAssignments elifStmts), s2)))"

section \<open>The program (parseProgram, parse)\<close>

datatype WhileStmt = WhileStmt (getWhileCond: Logic) (getWhileAssignments: "Assignment list")

text \<open>What the vector \<^verbatim>\<open>data\<close> of \<^verbatim>\<open>parseProgram\<close> holds: the statement nodes, each an
  \<^verbatim>\<open>AST *\<close>. The node of a unary statement is the \<^verbatim>\<open>UnaryOp\<close> expression. \<^verbatim>\<open>AST.h\<close>
  declares the classes \<^verbatim>\<open>ForStmt\<close> and \<^verbatim>\<open>PrintStmt\<close> and does not define them: their
  nodes are the type parameters \<open>'for\<close> and \<open>'print\<close>.\<close>

datatype ('for, 'print) AST =
    AST_Declaration Declaration
  | AST_UnaryOp Expr
  | AST_Assignment Assignment
  | AST_IfStmt IfStmt
  | AST_WhileStmt WhileStmt
  | AST_ForStmt 'for
  | AST_PrintStmt 'print

datatype ('for, 'print) Program = Program (getdata: "('for, 'print) AST list")

text \<open>
  \<^verbatim>\<open>parseProgram\<close> calls \<^verbatim>\<open>parseWhile\<close>, \<^verbatim>\<open>parseFor\<close> and \<^verbatim>\<open>parsePrint\<close>. None of the
  three is defined in \<^verbatim>\<open>Parser.cpp\<close>, so the program routines take them as a parameter.
\<close>

record ('for, 'print) routines =
  parseWhile :: "Parser \<Rightarrow> WhileStmt option \<times> Parser"
  parseFor :: "Parser \<Rightarrow> 'for option \<times> Parser"
  parsePrint :: "Parser \<Rightarrow> 'print option \<times> Parser"

text \<open>The second half of \<^verbatim>\<open>case Token::ident\<close>: \<^verbatim>\<open>a = parseAssign();\<close> the test for the
  semicolon, which comes before the test of \<^verbatim>\<open>a\<close>, and the test of \<^verbatim>\<open>a\<close>. A result
  \<open>(None, s)\<close> is a jump to \<^verbatim>\<open>_error\<close> in state \<open>s\<close>.\<close>

definition parseProgram_assign :: "nat \<Rightarrow> Parser \<Rightarrow> ('for, 'print) AST result" where
  "parseProgram_assign n s =
    (case parseAssign n s of
       None \<Rightarrow> None
     | Some (a, s1) \<Rightarrow>
         (if \<not> is_kind s1 Token_semicolon then Some (None, error s1)
          else (case a of Some a' \<Rightarrow> Some (Some (AST_Assignment a'), s1) | None \<Rightarrow> Some (None, s1))))"

text \<open>The body of the \<^verbatim>\<open>switch\<close> in the loop of \<^verbatim>\<open>parseProgram\<close>, entered after
  \<^verbatim>\<open>haveElse = true\<close>: the node to push, or a jump to \<^verbatim>\<open>_error\<close>.\<close>

definition parseStatement :: "('for, 'print) routines \<Rightarrow> nat \<Rightarrow> Parser \<Rightarrow> ('for, 'print) AST result" where
  "parseStatement ext n s =
    (if is_kind s Token_KW_int then
       (case parseIntDec n s of None \<Rightarrow> None | Some (d, s1) \<Rightarrow> Some (map_option AST_Declaration d, s1))
     else if is_kind s Token_KW_bool then
       (case parseBoolDec n s of None \<Rightarrow> None | Some (d, s1) \<Rightarrow> Some (map_option AST_Declaration d, s1))
     else if is_kind s Token_ident then
       (case parseUnary s of (u, s1) \<Rightarrow>
          (if is_kind s1 Token_semicolon then
             (case u of
                Some u' \<Rightarrow> Some (Some (AST_UnaryOp u'), s1)
              | None \<Rightarrow> parseProgram_assign n (s1\<lparr>toks := toks s\<rparr>))
           else
             (case u of
                Some u' \<Rightarrow> Some (None, error s1)
              | None \<Rightarrow> parseProgram_assign n (s1\<lparr>toks := toks s\<rparr>))))
     else if is_kind s Token_KW_if then
       (case parseIf n s of None \<Rightarrow> None | Some (i, s1) \<Rightarrow> Some (map_option AST_IfStmt i, s1))
     else if is_kind s Token_KW_while then
       (case parseWhile ext s of (l, s1) \<Rightarrow> Some (map_option AST_WhileStmt l, s1))
     else if is_kind s Token_KW_for then
       (case parseFor ext s of (l, s1) \<Rightarrow> Some (map_option AST_ForStmt l, s1))
     else if is_kind s Token_KW_print then
       (case parsePrint ext s of (l, s1) \<Rightarrow> Some (map_option AST_PrintStmt l, s1))
     else Some (None, error s))"

text \<open>The loop of \<^verbatim>\<open>parseProgram\<close>:
  \<^verbatim>\<open>while (!Tok.is(Token::eoi)) { haveElse = true; switch ...; if (haveElse) advance(); }
  return new Program(data);
  _error: while (Tok.getKind() != Token::eoi) advance(); return nullptr;\<close>\<close>

fun parseProgram_loop ::
  "('for, 'print) routines \<Rightarrow> nat \<Rightarrow> ('for, 'print) AST list \<Rightarrow> Parser \<Rightarrow> ('for, 'print) Program result" where
  "parseProgram_loop ext 0 data s = None"
| "parseProgram_loop ext (Suc n) data s =
    (if \<not> is_kind s Token_eoi then
       (case parseStatement ext n (s\<lparr>haveElse := True\<rparr>) of
          None \<Rightarrow> None
        | Some (None, s1) \<Rightarrow> Some (None, recover s1)
        | Some (Some node, s1) \<Rightarrow>
            parseProgram_loop ext n (data @ [node]) (if haveElse s1 then advance s1 else s1))
     else Some (Some (Program data), s))"

definition parseProgram :: "('for, 'print) routines \<Rightarrow> nat \<Rightarrow> Parser \<Rightarrow> ('for, 'print) Program result" where
  "parseProgram ext n s = parseProgram_loop ext n [] s"

definition parse :: "('for, 'print) routines \<Rightarrow> nat \<Rightarrow> Parser \<Rightarrow> ('for, 'print) Program result" where
  "parse ext n s = parseProgram ext n s"

section \<open>Combinators and predicates used in the proofs\<close>

text \<open>
  The three ways in which a routine continues after a call. \<open>seq\<close> is
  \<^verbatim>\<open>X = parseY(); if (X == nullptr) goto _error;\<close>; \<open>seq0\<close> is the same step inside a
  routine whose parts are separate functions here, where the part that failed has already
  run the loop under \<^verbatim>\<open>_error\<close>; \<open>trial\<close> is a call whose null result is not an error.
\<close>

definition seq :: "'a result \<Rightarrow> ('a \<Rightarrow> Parser \<Rightarrow> 'b result) \<Rightarrow> 'b result" where
  "seq m f = (case m of None \<Rightarrow> None | Some (None, s1) \<Rightarrow> Some (None, recover s1)
              | Some (Some x, s1) \<Rightarrow> f x s1)"

definition seq0 :: "'a result \<Rightarrow> ('a \<Rightarrow> Parser \<Rightarrow> 'b result) \<Rightarrow> 'b result" where
  "seq0 m f = (case m of None \<Rightarrow> None | Some (None, s1) \<Rightarrow> Some (None, s1)
               | Some (Some x, s1) \<Rightarrow> f x s1)"

definition trial :: "'a result \<Rightarrow> ('a \<Rightarrow> Parser \<Rightarrow> 'b result) \<Rightarrow> (Parser \<Rightarrow> 'b result) \<Rightarrow> 'b result" where
  "trial m f g = (case m of None \<Rightarrow> None | Some (None, s1) \<Rightarrow> g s1 | Some (Some x, s1) \<Rightarrow> f x s1)"

definition map_result :: "('a \<Rightarrow> 'b) \<Rightarrow> 'a result \<Rightarrow> 'b result" where
  "map_result h m = (case m of None \<Rightarrow> None | Some (x, s1) \<Rightarrow> Some (map_option h x, s1))"

text \<open>A routine that returned the null pointer has left the cursor at end of input.\<close>

definition fails_at_eoi :: "'a result \<Rightarrow> bool" where
  "fails_at_eoi r = (\<forall>s'. r = Some (None, s') \<longrightarrow> getKind (Tok s') = Token_eoi)"

text \<open>More fuel does not change a result that less fuel has produced.\<close>

definition fuel_le :: "'a result \<Rightarrow> 'a result \<Rightarrow> bool" where
  "fuel_le r r' = (r = None \<or> r = r')"

section \<open>Concrete inputs\<close>

definition tok :: "TokenKind \<Rightarrow> string \<Rightarrow> Token" where
  "tok k t = \<lparr>getKind = k, getText = t\<rparr>"

text \<open>The parser before the first call: nothing reported, and the global \<^verbatim>\<open>haveElse\<close>
  zero-initialised.\<close>

definition start :: "Token list \<Rightarrow> Parser" where
  "start ts = \<lparr>toks = ts, diags = [], haveElse = False\<rparr>"

text \<open>
  An instance of the parameter of \<open>parseProgram\<close> for the evaluation of inputs that
  contain none of the keywords \<^verbatim>\<open>while\<close>, \<^verbatim>\<open>for\<close> and \<^verbatim>\<open>print\<close>. On such inputs the
  three routines are never called.
\<close>

definition panic :: "Parser \<Rightarrow> 'a option \<times> Parser" where
  "panic s = (None, recover (error s))"

definition no_routines :: "(unit, unit) routines" where
  "no_routines = \<lparr>parseWhile = panic, parseFor = panic, parsePrint = panic\<rparr>"

section \<open>The first token of an operand\<close>

text \<open>
  The parser builds no node for a pair of parentheses, and a binary operation extends its
  left operand to the right. So the first token of an operand that does not start with a
  parenthesis is the token of its leftmost leaf: an identifier if that leaf is a Final of
  kind Ident or a UnaryOp.
\<close>

fun first_is_ident :: "Expr \<Rightarrow> bool" where
  "first_is_ident (Final k v) = (k = Final_Ident)"
| "first_is_ident (BinaryOp Op L R) = first_is_ident L"
| "first_is_ident (UnaryOp Op I) = True"
| "first_is_ident (SignedNumber S V) = False"
| "first_is_ident (NegExpr E) = False"

text \<open>No Comparison node of the tree that has a left operand has one that starts with an
  identifier.\<close>

fun no_ident_led_relation :: "Logic \<Rightarrow> bool" where
  "no_ident_led_relation (ComparisonNode L R Op V) =
     (case L of None \<Rightarrow> True | Some e \<Rightarrow> \<not> first_is_ident e)"
| "no_ident_led_relation (LogicalExpr A B Op) =
     (no_ident_led_relation A \<and> no_ident_led_relation B)"

text \<open>A routine that leaves the global \<^verbatim>\<open>haveElse\<close> at the value \<open>h\<close>.\<close>

definition keeps_haveElse :: "bool \<Rightarrow> 'a result \<Rightarrow> bool" where
  "keeps_haveElse h r = (\<forall>x s'. r = Some (x, s') \<longrightarrow> haveElse s' = h)"

text \<open>A routine that leaves a suffix of \<open>ts\<close> as the tokens not yet consumed.\<close>

definition leaves_suffix :: "Token list \<Rightarrow> 'a result \<Rightarrow> bool" where
  "leaves_suffix ts r = (\<forall>x s'. r = Some (x, s') \<longrightarrow> suffix (toks s') ts)"

text \<open>
  What the proof of termination asks of \<^verbatim>\<open>parseWhile\<close>, \<^verbatim>\<open>parseFor\<close> and \<^verbatim>\<open>parsePrint\<close>:
  a statement that was parsed has consumed at least one token, and no routine invents
  tokens.
\<close>

definition consuming :: "(Parser \<Rightarrow> 'a option \<times> Parser) \<Rightarrow> bool" where
  "consuming f = (\<forall>s. suffix (toks (snd (f s))) (toks s)
                     \<and> (fst (f s) \<noteq> None \<longrightarrow> length (toks (snd (f s))) < length (toks s)))"

text \<open>A call that returns: the fuel was enough.\<close>

definition returns :: "'a result \<Rightarrow> bool" where
  "returns r = (r \<noteq> None)"

section \<open>The token source\<close>

lemma Tok_recover [simp]: "getKind (Tok (recover s)) = Token_eoi"
proof (cases "dropWhile (\<lambda>t. getKind t \<noteq> Token_eoi) (toks s)")
  case Nil
  then show ?thesis by (simp add: Tok_def recover_def del: dropWhile_eq_Nil_conv)
next
  case (Cons t ts)
  then have "\<not> getKind t \<noteq> Token_eoi"
    using hd_dropWhile [of "\<lambda>t. getKind t \<noteq> Token_eoi" "toks s"] by fastforce
  with Cons show ?thesis by (simp add: Tok_def recover_def)
qed

lemma expect_case:
  "(case expect K s of (True, s1) \<Rightarrow> A s1 | (False, s1) \<Rightarrow> B s1) =
   (if getKind (Tok s) \<noteq> K then A (error s) else B s)"
  by (simp add: expect_def)

lemma consume_case:
  "(case consume K s of (True, s1) \<Rightarrow> A s1 | (False, s1) \<Rightarrow> B s1) =
   (if getKind (Tok s) \<noteq> K then A (error s) else B (advance s))"
  by (simp add: consume_def expect_def)

lemma Tok_error [simp]: "Tok (error s) = Tok s"
  by (simp add: Tok_def error_def)

section \<open>The routines, one step unfolded\<close>

lemma parseExpr_Suc: "parseExpr (Suc n) s = seq (parseTerm n s) (parseExpr_loop n)"
  by (simp add: seq_def split: option.splits prod.splits)

lemma parseExpr_loop_Suc:
  "parseExpr_loop (Suc n) L s =
    (if getKind (Tok s) = Token_plus \<or> getKind (Tok s) = Token_minus then
       seq (parseTerm n (advance s))
         (\<lambda>R. parseExpr_loop n
            (BinaryOp (if getKind (Tok s) = Token_plus then BinaryOp_Plus else BinaryOp_Minus) L R))
     else Some (Some L, s))"
  by (simp add: seq_def is_kind_def split: option.splits prod.splits)

lemma parseTerm_Suc: "parseTerm (Suc n) s = seq (parseFactor n s) (parseTerm_loop n)"
  by (simp add: seq_def split: option.splits prod.splits)

lemma parseTerm_loop_Suc:
  "parseTerm_loop (Suc n) L s =
    (if getKind (Tok s) = Token_star \<or> getKind (Tok s) = Token_mod \<or> getKind (Tok s) = Token_slash then
       seq (parseFactor n (advance s))
         (\<lambda>R. parseTerm_loop n
            (BinaryOp (if getKind (Tok s) = Token_star then BinaryOp_Mul
                       else if getKind (Tok s) = Token_slash then BinaryOp_Div else BinaryOp_Mod) L R))
     else Some (Some L, s))"
  by (simp add: seq_def is_kind_def split: option.splits prod.splits)

lemma parseFactor_Suc: "parseFactor (Suc n) s = seq (parseFinal n s) (parseFactor_loop n)"
  by (simp add: seq_def split: option.splits prod.splits)

lemma parseFactor_loop_Suc:
  "parseFactor_loop (Suc n) L s =
    (if getKind (Tok s) = Token_exp then
       seq (parseFactor n (advance s)) (\<lambda>R. parseFactor_loop n (BinaryOp BinaryOp_Exp L R))
     else Some (Some L, s))"
  by (simp add: seq_def is_kind_def split: option.splits prod.splits)

lemma parseFinal_Suc:
  "parseFinal (Suc n) s =
    (if getKind (Tok s) = Token_number then
       Some (Some (Final Final_Number (getText (Tok s))), advance s)
     else if getKind (Tok s) = Token_ident then
       (if getKind (Tok (advance s)) = Token_plus_plus then
          Some (Some (UnaryOp UnaryOp_Plus_plus (getText (Tok s))), advance (advance s))
        else if getKind (Tok (advance s)) = Token_minus_minus then
          Some (Some (UnaryOp UnaryOp_Minus_minus (getText (Tok s))), advance (advance s))
        else Some (Some (Final Final_Ident (getText (Tok s))), advance s))
     else if getKind (Tok s) = Token_plus then
       (if getKind (Tok (advance s)) = Token_number then
          Some (Some (SignedNumber SignedNumber_Plus (getText (Tok (advance s)))), advance (advance s))
        else Some (None, recover (advance s)))
     else if getKind (Tok s) = Token_minus then
       (if getKind (Tok (advance s)) = Token_number then
          Some (Some (SignedNumber SignedNumber_Minus (getText (Tok (advance s)))), advance (advance s))
        else if getKind (Tok (advance s)) = Token_l_paren then
          seq (parseExpr n (advance (advance s)))
            (\<lambda>math_expr s2. if getKind (Tok s2) \<noteq> Token_r_paren then Some (None, recover (error s2))
                            else Some (Some (NegExpr math_expr), advance s2))
        else Some (None, recover (advance s)))
     else if getKind (Tok s) = Token_l_paren then
       seq (parseExpr n (advance s))
         (\<lambda>Res s1. if getKind (Tok s1) \<noteq> Token_r_paren then Some (None, recover (error s1))
                    else Some (Some Res, advance s1))
     else Some (None, recover (error s)))"
  by (simp add: seq_def is_kind_def Let_def consume_def expect_def split: option.splits prod.splits)

lemmas arith_0 = parseExpr.simps(1) parseExpr_loop.simps(1) parseTerm.simps(1)
  parseTerm_loop.simps(1) parseFactor.simps(1) parseFactor_loop.simps(1) parseFinal.simps(1)

lemmas arith_Suc = parseExpr_Suc parseExpr_loop_Suc parseTerm_Suc parseTerm_loop_Suc
  parseFactor_Suc parseFactor_loop_Suc parseFinal_Suc

declare parseExpr.simps [simp del] parseExpr_loop.simps [simp del] parseTerm.simps [simp del]
  parseTerm_loop.simps [simp del] parseFactor.simps [simp del] parseFactor_loop.simps [simp del]
  parseFinal.simps [simp del]

lemma parseComparison_Suc:
  "parseComparison (Suc n) s =
    (if getKind (Tok s) = Token_l_paren then
       seq (parseLogic n (advance s))
         (\<lambda>Res s1. if getKind (Tok s1) \<noteq> Token_r_paren then Some (None, recover (error s1))
                    else Some (Some Res, advance s1))
     else if getKind (Tok s) = Token_true \<or> getKind (Tok s) = Token_false
             \<or> getKind (Tok s) = Token_ident then
       Some (Some (ComparisonNode None None None (getText (Tok s))), advance s)
     else
       seq (parseExpr n s)
         (\<lambda>L s1. if getKind (Tok s1) \<in> {Token_eq, Token_neq, Token_gt, Token_lt, Token_gte, Token_lte}
                  then seq (parseExpr n (advance s1))
                         (\<lambda>R s2. Some (Some (ComparisonNode (Some L) (Some R) None (getText (Tok s2))), s2))
                  else Some (None, recover (error s1))))"
  by (simp add: seq_def is_kind_def Comparison_def consume_def expect_def
           split: option.splits prod.splits)

lemma parseLogic_Suc: "parseLogic (Suc n) s = seq (parseComparison n s) (parseLogic_loop n)"
  by (simp add: seq_def split: option.splits prod.splits)

lemma parseLogic_loop_Suc:
  "parseLogic_loop (Suc n) L s =
    (if getKind (Tok s) = Token_KW_and \<or> getKind (Tok s) = Token_KW_or then
       seq (parseComparison n (advance s))
         (\<lambda>R. parseLogic_loop n
            (LogicalExpr L R (if getKind (Tok s) = Token_KW_and then LogicalExpr_And else LogicalExpr_Or)))
     else Some (Some L, s))"
  by (simp add: seq_def is_kind_def split: option.splits prod.splits)

lemmas logic_0 = parseComparison.simps(1) parseLogic.simps(1) parseLogic_loop.simps(1)

lemmas logic_Suc = parseComparison_Suc parseLogic_Suc parseLogic_loop_Suc

declare parseComparison.simps [simp del] parseLogic.simps [simp del] parseLogic_loop.simps [simp del]


section \<open>Failure leaves the cursor at end of input\<close>

lemma fails_at_eoi_simps [simp]:
  "fails_at_eoi None" "fails_at_eoi (Some (Some x, s))" "fails_at_eoi (Some (None, recover s))"
  by (simp_all add: fails_at_eoi_def)

lemma fails_at_eoi_seq:
  "(\<And>x s1. fails_at_eoi (f x s1)) \<Longrightarrow> fails_at_eoi (seq m f)"
  by (auto simp: fails_at_eoi_def seq_def split: option.splits)

lemma fails_at_eoi_seq0:
  "fails_at_eoi m \<Longrightarrow> (\<And>x s1. fails_at_eoi (f x s1)) \<Longrightarrow> fails_at_eoi (seq0 m f)"
  by (auto simp: fails_at_eoi_def seq0_def split: option.splits)

lemma fails_at_eoi_trial:
  "(\<And>x s1. fails_at_eoi (f x s1)) \<Longrightarrow> (\<And>s1. fails_at_eoi (g s1)) \<Longrightarrow> fails_at_eoi (trial m f g)"
  by (auto simp: fails_at_eoi_def trial_def split: option.splits)

lemma fails_at_eoi_map: "fails_at_eoi m \<Longrightarrow> fails_at_eoi (map_result h m)"
  by (auto simp: fails_at_eoi_def map_result_def split: option.splits)

lemma fails_at_eoi_if:
  "fails_at_eoi a \<Longrightarrow> fails_at_eoi b \<Longrightarrow> fails_at_eoi (if c then a else b)"
  by simp

lemma fails_at_eoi_prod:
  "(\<And>a b. fails_at_eoi (f a b s)) \<Longrightarrow> fails_at_eoi ((case x of (a, b) \<Rightarrow> f a b) s)"
  by (simp split: prod.splits)

lemmas fails_intros = fails_at_eoi_seq fails_at_eoi_seq0 fails_at_eoi_trial fails_at_eoi_map
  fails_at_eoi_if fails_at_eoi_prod fails_at_eoi_simps

lemma arith_fails_at_eoi:
  "(\<forall>s. fails_at_eoi (parseExpr n s)) \<and> (\<forall>s L. fails_at_eoi (parseExpr_loop n L s)) \<and>
   (\<forall>s. fails_at_eoi (parseTerm n s)) \<and> (\<forall>s L. fails_at_eoi (parseTerm_loop n L s)) \<and>
   (\<forall>s. fails_at_eoi (parseFactor n s)) \<and> (\<forall>s L. fails_at_eoi (parseFactor_loop n L s)) \<and>
   (\<forall>s. fails_at_eoi (parseFinal n s))"
proof (induction n)
  case 0
  show ?case by (simp add: arith_0)
next
  case (Suc n)
  then have ih: "\<And>s. fails_at_eoi (parseExpr n s)" "\<And>s L. fails_at_eoi (parseExpr_loop n L s)"
    "\<And>s. fails_at_eoi (parseTerm n s)" "\<And>s L. fails_at_eoi (parseTerm_loop n L s)"
    "\<And>s. fails_at_eoi (parseFactor n s)" "\<And>s L. fails_at_eoi (parseFactor_loop n L s)"
    "\<And>s. fails_at_eoi (parseFinal n s)"
    by blast+
  show ?case
    unfolding arith_Suc by (intro conjI allI fails_intros ih)
qed

lemmas parseExpr_fails [simp] = arith_fails_at_eoi [THEN conjunct1, rule_format]
lemmas parseFinal_fails [simp] =
  arith_fails_at_eoi [THEN conjunct2, THEN conjunct2, THEN conjunct2, THEN conjunct2,
    THEN conjunct2, THEN conjunct2, rule_format]
lemmas parseTerm_fails [simp] = arith_fails_at_eoi [THEN conjunct2, THEN conjunct2, THEN conjunct1, rule_format]
lemmas parseFactor_fails [simp] = arith_fails_at_eoi [THEN conjunct2, THEN conjunct2, THEN conjunct2, THEN conjunct2, THEN conjunct1, rule_format]

lemma logic_fails_at_eoi:
  "(\<forall>s. fails_at_eoi (parseComparison n s)) \<and> (\<forall>s. fails_at_eoi (parseLogic n s)) \<and>
   (\<forall>s L. fails_at_eoi (parseLogic_loop n L s))"
proof (induction n)
  case 0
  show ?case by (simp add: logic_0)
next
  case (Suc n)
  then have ih: "\<And>s. fails_at_eoi (parseComparison n s)" "\<And>s. fails_at_eoi (parseLogic n s)"
    "\<And>s L. fails_at_eoi (parseLogic_loop n L s)"
    by blast+
  show ?case
    unfolding logic_Suc by (intro conjI allI fails_intros ih)
qed

lemmas parseComparison_fails [simp] = logic_fails_at_eoi [THEN conjunct1, rule_format]
lemmas parseLogic_fails [simp] = logic_fails_at_eoi [THEN conjunct2, THEN conjunct1, rule_format]

section \<open>Fuel\<close>

lemma fuel_le_refl [simp]: "fuel_le r r" "fuel_le None r"
  by (simp_all add: fuel_le_def)

lemma fuel_le_seq:
  "fuel_le m m' \<Longrightarrow> (\<And>x s1. fuel_le (f x s1) (f' x s1)) \<Longrightarrow> fuel_le (seq m f) (seq m' f')"
  by (auto simp: fuel_le_def seq_def split: option.splits)

lemma fuel_le_seq0:
  "fuel_le m m' \<Longrightarrow> (\<And>x s1. fuel_le (f x s1) (f' x s1)) \<Longrightarrow> fuel_le (seq0 m f) (seq0 m' f')"
  by (auto simp: fuel_le_def seq0_def split: option.splits)

lemma fuel_le_trial:
  "fuel_le m m' \<Longrightarrow> (\<And>x s1. fuel_le (f x s1) (f' x s1)) \<Longrightarrow> (\<And>s1. fuel_le (g s1) (g' s1))
   \<Longrightarrow> fuel_le (trial m f g) (trial m' f' g')"
  by (auto simp: fuel_le_def trial_def split: option.splits)

lemma fuel_le_map: "fuel_le m m' \<Longrightarrow> fuel_le (map_result h m) (map_result h m')"
  by (auto simp: fuel_le_def map_result_def)

lemma fuel_le_if:
  "fuel_le a a' \<Longrightarrow> fuel_le b b' \<Longrightarrow> fuel_le (if c then a else b) (if c then a' else b')"
  by simp

lemma fuel_le_prod:
  "(\<And>a b. fuel_le (f a b s) (f' a b s)) \<Longrightarrow>
   fuel_le ((case x of (a, b) \<Rightarrow> f a b) s) ((case x of (a, b) \<Rightarrow> f' a b) s)"
  by (simp split: prod.splits)

lemma fuel_le_unfold: "a = a' \<Longrightarrow> b = b' \<Longrightarrow> fuel_le a' b' \<Longrightarrow> fuel_le a b"
  by simp

lemmas fuel_intros = fuel_le_seq fuel_le_seq0 fuel_le_trial fuel_le_map fuel_le_if fuel_le_prod
  fuel_le_refl

lemma arith_fuel_Suc:
  "(\<forall>s. fuel_le (parseExpr n s) (parseExpr (Suc n) s)) \<and>
   (\<forall>s L. fuel_le (parseExpr_loop n L s) (parseExpr_loop (Suc n) L s)) \<and>
   (\<forall>s. fuel_le (parseTerm n s) (parseTerm (Suc n) s)) \<and>
   (\<forall>s L. fuel_le (parseTerm_loop n L s) (parseTerm_loop (Suc n) L s)) \<and>
   (\<forall>s. fuel_le (parseFactor n s) (parseFactor (Suc n) s)) \<and>
   (\<forall>s L. fuel_le (parseFactor_loop n L s) (parseFactor_loop (Suc n) L s)) \<and>
   (\<forall>s. fuel_le (parseFinal n s) (parseFinal (Suc n) s))"
proof (induction n)
  case 0
  show ?case by (simp add: arith_0)
next
  case (Suc n)
  then have ih: "\<And>s. fuel_le (parseExpr n s) (parseExpr (Suc n) s)"
   "\<And>s L. fuel_le (parseExpr_loop n L s) (parseExpr_loop (Suc n) L s)"
   "\<And>s. fuel_le (parseTerm n s) (parseTerm (Suc n) s)"
   "\<And>s L. fuel_le (parseTerm_loop n L s) (parseTerm_loop (Suc n) L s)"
   "\<And>s. fuel_le (parseFactor n s) (parseFactor (Suc n) s)"
   "\<And>s L. fuel_le (parseFactor_loop n L s) (parseFactor_loop (Suc n) L s)"
   "\<And>s. fuel_le (parseFinal n s) (parseFinal (Suc n) s)"
    by blast+
  have "fuel_le (parseExpr (Suc n) s) (parseExpr (Suc (Suc n)) s)" for s
    by (rule fuel_le_unfold [OF parseExpr_Suc parseExpr_Suc]) (intro fuel_intros ih)
  moreover have "fuel_le (parseExpr_loop (Suc n) L s) (parseExpr_loop (Suc (Suc n)) L s)" for s L
    by (rule fuel_le_unfold [OF parseExpr_loop_Suc parseExpr_loop_Suc]) (intro fuel_intros ih)
  moreover have "fuel_le (parseTerm (Suc n) s) (parseTerm (Suc (Suc n)) s)" for s
    by (rule fuel_le_unfold [OF parseTerm_Suc parseTerm_Suc]) (intro fuel_intros ih)
  moreover have "fuel_le (parseTerm_loop (Suc n) L s) (parseTerm_loop (Suc (Suc n)) L s)" for s L
    by (rule fuel_le_unfold [OF parseTerm_loop_Suc parseTerm_loop_Suc]) (intro fuel_intros ih)
  moreover have "fuel_le (parseFactor (Suc n) s) (parseFactor (Suc (Suc n)) s)" for s
    by (rule fuel_le_unfold [OF parseFactor_Suc parseFactor_Suc]) (intro fuel_intros ih)
  moreover have "fuel_le (parseFactor_loop (Suc n) L s) (parseFactor_loop (Suc (Suc n)) L s)" for s L
    by (rule fuel_le_unfold [OF parseFactor_loop_Suc parseFactor_loop_Suc]) (intro fuel_intros ih)
  moreover have "fuel_le (parseFinal (Suc n) s) (parseFinal (Suc (Suc n)) s)" for s
    by (rule fuel_le_unfold [OF parseFinal_Suc parseFinal_Suc]) (intro fuel_intros ih)
  ultimately show ?case by blast
qed

lemma fuel_le_trans: "fuel_le a b \<Longrightarrow> fuel_le b c \<Longrightarrow> fuel_le a c"
  by (auto simp: fuel_le_def)

lemma fuel_le_add:
  assumes "\<And>n. fuel_le (f n) (f (Suc n))"
  shows "fuel_le (f n) (f (n + k))"
proof (induction k)
  case 0
  show ?case by simp
next
  case (Suc k)
  then show ?case using assms [of "n + k"] by (auto intro: fuel_le_trans)
qed

lemma fuel_mono:
  assumes "\<And>n. fuel_le (f n) (f (Suc n))" and "f n = Some r" and "n \<le> m"
  shows "f m = Some r"
proof -
  from assms(3) obtain k where "m = n + k" by (auto simp: le_iff_add)
  moreover have "fuel_le (f n) (f (n + k))" by (rule fuel_le_add) (rule assms(1))
  ultimately show ?thesis using assms(2) by (simp add: fuel_le_def)
qed

lemma parseFinal_mono: "parseFinal n s = Some r \<Longrightarrow> n \<le> m \<Longrightarrow> parseFinal m s = Some r"
  using fuel_mono [of "\<lambda>n. parseFinal n s"] arith_fuel_Suc by blast

lemma parseExpr_mono: "parseExpr n s = Some r \<Longrightarrow> n \<le> m \<Longrightarrow> parseExpr m s = Some r"
  using fuel_mono [of "\<lambda>n. parseExpr n s"] arith_fuel_Suc by blast

lemma logic_fuel_Suc:
  "(\<forall>s. fuel_le (parseComparison n s) (parseComparison (Suc n) s)) \<and>
   (\<forall>s. fuel_le (parseLogic n s) (parseLogic (Suc n) s)) \<and>
   (\<forall>s L. fuel_le (parseLogic_loop n L s) (parseLogic_loop (Suc n) L s))"
proof (induction n)
  case 0
  show ?case by (simp add: logic_0)
next
  case (Suc n)
  then have ih: "\<And>s. fuel_le (parseComparison n s) (parseComparison (Suc n) s)"
   "\<And>s. fuel_le (parseLogic n s) (parseLogic (Suc n) s)"
   "\<And>s L. fuel_le (parseLogic_loop n L s) (parseLogic_loop (Suc n) L s)"
    by blast+
  note ar = arith_fuel_Suc [THEN conjunct1, rule_format]
  have "fuel_le (parseComparison (Suc n) s) (parseComparison (Suc (Suc n)) s)" for s
    by (rule fuel_le_unfold [OF parseComparison_Suc parseComparison_Suc]) (intro fuel_intros ih ar)
  moreover have "fuel_le (parseLogic (Suc n) s) (parseLogic (Suc (Suc n)) s)" for s
    by (rule fuel_le_unfold [OF parseLogic_Suc parseLogic_Suc]) (intro fuel_intros ih)
  moreover have "fuel_le (parseLogic_loop (Suc n) L s) (parseLogic_loop (Suc (Suc n)) L s)" for s L
    by (rule fuel_le_unfold [OF parseLogic_loop_Suc parseLogic_loop_Suc]) (intro fuel_intros ih)
  ultimately show ?case by blast
qed


lemmas parseLogic_fuel_Suc = logic_fuel_Suc [THEN conjunct2, THEN conjunct1, rule_format]
lemmas parseExpr_fuel_Suc = arith_fuel_Suc [THEN conjunct1, rule_format]
lemmas parseFinal_fuel_Suc = arith_fuel_Suc [THEN conjunct2, THEN conjunct2, THEN conjunct2,
  THEN conjunct2, THEN conjunct2, THEN conjunct2, rule_format]

section \<open>Statements, one step unfolded\<close>

lemma parseAssign_expr_eq:
  "parseAssign_expr n F AK s =
     seq (parseExpr n (advance s)) (\<lambda>E s1. Some (Some (Assignment F (Some E) AK None), s1))"
  by (simp add: parseAssign_expr_def seq_def split: option.splits prod.splits)

lemma parseAssign_eq:
  "parseAssign n s =
    seq (parseFinal n s)
      (\<lambda>F s1.
         if getKind (Tok s1) = Token_assign then
           trial (parseLogic n (advance s1))
             (\<lambda>L s2. Some (Some (Assignment F None Assignment_Assign (Some L)), s2))
             (\<lambda>s2. parseAssign_expr n F Assignment_Assign (s2\<lparr>toks := toks s1\<rparr>))
         else if getKind (Tok s1) = Token_plus_assign then parseAssign_expr n F Assignment_Plus_assign s1
         else if getKind (Tok s1) = Token_minus_assign then parseAssign_expr n F Assignment_Minus_assign s1
         else if getKind (Tok s1) = Token_star_assign then parseAssign_expr n F Assignment_Star_assign s1
         else if getKind (Tok s1) = Token_slash_assign then parseAssign_expr n F Assignment_Slash_assign s1
         else Some (None, recover (error s1)))"
  by (simp add: parseAssign_def seq_def trial_def is_kind_def split: option.splits prod.splits)

lemma parseUnary_eq:
  "parseUnary s =
    (if getKind (Tok s) \<noteq> Token_ident then (None, recover (error s))
     else if getKind (Tok (advance s)) = Token_plus_plus then
       (Some (UnaryOp UnaryOp_Plus_plus (getText (Tok s))), advance (advance s))
     else if getKind (Tok (advance s)) = Token_minus_minus then
       (Some (UnaryOp UnaryOp_Minus_minus (getText (Tok s))), advance (advance s))
     else (None, recover (advance s)))"
  by (simp add: parseUnary_def expect_def Let_def)

lemma parseDec_vars_Suc:
  "parseDec_vars (Suc n) Vars count s =
    (if getKind (Tok s) = Token_comma then
       (if getKind (Tok (advance s)) \<noteq> Token_ident then Some (None, recover (error (advance s)))
        else parseDec_vars n (Vars @ [getText (Tok (advance s))]) (count + 1) (advance (advance s)))
     else Some (Some (Vars, count), s))"
  by (simp add: is_kind_def expect_def)

lemma parseInit_eq:
  "parseInit isBool n s =
    (if isBool then map_result LogicValue (parseLogic n s) else map_result ExprValue (parseExpr n s))"
  by (simp add: parseInit_def map_result_def split: option.splits prod.splits)

lemma parseDec_values_Suc:
  "parseDec_values isBool (Suc n) Values count s =
    (if getKind (Tok s) = Token_comma then
       (if count = 0 then Some (None, recover (error s))
        else seq (parseInit isBool n (advance s))
               (\<lambda>E. parseDec_values isBool n (Values @ [E]) (count - 1)))
     else Some (Some Values, s))"
  by (simp add: is_kind_def seq_def split: option.splits prod.splits)

lemma parseDec_eq:
  "parseDec isBool n s =
    (if getKind (Tok s) \<noteq> (if isBool then Token_KW_bool else Token_KW_int) then
       Some (None, recover (error s))
     else if getKind (Tok (advance s)) \<noteq> Token_ident then Some (None, recover (error (advance s)))
     else
       seq0 (parseDec_vars n [getText (Tok (advance s))] 1 (advance (advance s)))
         (\<lambda>vc s3.
            seq0 (if getKind (Tok s3) = Token_assign then
                    seq (parseInit isBool n (advance s3))
                      (\<lambda>E. parseDec_values isBool n [E] (snd vc - 1))
                  else Some (Some [], s3))
              (\<lambda>Values s5.
                 if getKind (Tok s5) \<noteq> Token_semicolon then Some (None, recover (error s5))
                 else Some (Some (Declaration (fst vc) Values), s5))))"
  by (simp add: parseDec_def is_kind_def expect_def seq_def seq0_def split: option.splits prod.splits)

lemma parseIf_block_Suc:
  "parseIf_block (Suc n) assignments s =
    (if getKind (Tok s) \<noteq> Token_KW_end then
       seq (parseAssign n s)
         (\<lambda>a s1. if getKind (Tok s1) \<noteq> Token_semicolon then Some (None, recover (error s1))
                  else parseIf_block n (assignments @ [a]) (advance s1))
     else Some (Some assignments, s))"
  by (simp add: is_kind_def expect_def seq_def split: option.splits prod.splits)

lemma parseIf_cond_block_eq:
  "parseIf_cond_block n s =
    seq (parseLogic n s)
      (\<lambda>Cond s1.
         if getKind (Tok s1) \<noteq> Token_colon then Some (None, recover (error s1))
         else if getKind (Tok (advance s1)) \<noteq> Token_KW_begin then
           Some (None, recover (error (advance s1)))
         else seq0 (parseIf_block n [] (advance (advance s1)))
                (\<lambda>assignments s4. Some (Some (Cond, assignments), s4)))"
  by (simp add: parseIf_cond_block_def expect_def seq_def seq0_def split: option.splits prod.splits)

lemma parseIf_elifs_Suc:
  "parseIf_elifs (Suc n) elifStmts s =
    (if getKind (Tok s) = Token_KW_elif then
       seq0 (parseIf_cond_block n (advance s))
         (\<lambda>ca s1. parseIf_elifs n (elifStmts @ [elifStmt (fst ca) (snd ca)]) (advance s1))
     else Some (Some elifStmts, s))"
  by (simp add: is_kind_def seq0_def split: option.splits prod.splits)

lemma parseIf_else_eq:
  "parseIf_else n s =
    (if getKind (Tok s) = Token_KW_else then
       (if getKind (Tok (advance (s\<lparr>haveElse := True\<rparr>))) \<noteq> Token_colon then
          Some (None, recover (error (advance (s\<lparr>haveElse := True\<rparr>))))
        else if getKind (Tok (advance (advance (s\<lparr>haveElse := True\<rparr>)))) \<noteq> Token_KW_begin then
          Some (None, recover (error (advance (advance (s\<lparr>haveElse := True\<rparr>)))))
        else parseIf_block n [] (advance (advance (advance (s\<lparr>haveElse := True\<rparr>)))))
     else Some (Some [], s))"
  by (simp add: parseIf_else_def is_kind_def expect_def)

lemma parseIf_elif_part_eq:
  "parseIf_elif_part n s =
    (if getKind (Tok (s\<lparr>haveElse := False\<rparr>)) \<noteq> Token_KW_if then
       Some (None, recover (error (s\<lparr>haveElse := False\<rparr>)))
     else
       seq0 (parseIf_cond_block n (advance (s\<lparr>haveElse := False\<rparr>)))
         (\<lambda>ca s2. seq0 (parseIf_elifs n [] (advance s2))
                     (\<lambda>elifStmts s3. Some (Some (fst ca, snd ca, elifStmts), s3))))"
  by (simp add: parseIf_elif_part_def expect_def seq0_def split: option.splits prod.splits)

lemma parseIf_eq:
  "parseIf n s =
    seq0 (parseIf_elif_part n s)
      (\<lambda>p s1. seq0 (parseIf_else n s1)
         (\<lambda>elseAssignments s2.
            Some (Some (IfStmt (fst p) (fst (snd p)) elseAssignments (snd (snd p))), s2)))"
  by (simp add: parseIf_def seq0_def split: option.splits prod.splits)

section \<open>Failure of the statement routines\<close>

lemma parseAssign_fails [simp]: "fails_at_eoi (parseAssign n s)"
  unfolding parseAssign_eq parseAssign_expr_eq by (intro fails_intros)

lemma parseUnary_fails: "parseUnary s = (None, s') \<Longrightarrow> getKind (Tok s') = Token_eoi"
  by (auto simp: parseUnary_eq split: if_splits)

lemma parseInit_fails [simp]: "fails_at_eoi (parseInit isBool n s)"
  unfolding parseInit_eq by (intro fails_intros parseLogic_fails parseExpr_fails)

lemma parseDec_vars_fails [simp]: "fails_at_eoi (parseDec_vars n Vars count s)"
proof (induction n arbitrary: Vars count s)
  case 0
  show ?case by simp
next
  case (Suc n)
  show ?case unfolding parseDec_vars_Suc by (intro fails_intros Suc)
qed

lemma parseDec_values_fails [simp]: "fails_at_eoi (parseDec_values isBool n Values count s)"
proof (induction n arbitrary: Values count s)
  case 0
  show ?case by simp
next
  case (Suc n)
  show ?case unfolding parseDec_values_Suc by (intro fails_intros Suc)
qed

lemma parseDec_fails [simp]: "fails_at_eoi (parseDec isBool n s)"
  unfolding parseDec_eq by (intro fails_intros parseDec_vars_fails parseDec_values_fails)

lemma parseIf_block_fails [simp]: "fails_at_eoi (parseIf_block n assignments s)"
proof (induction n arbitrary: assignments s)
  case 0
  show ?case by simp
next
  case (Suc n)
  show ?case unfolding parseIf_block_Suc by (intro fails_intros Suc)
qed

lemma parseIf_cond_block_fails [simp]: "fails_at_eoi (parseIf_cond_block n s)"
  unfolding parseIf_cond_block_eq by (intro fails_intros parseIf_block_fails)

lemma parseIf_elifs_fails [simp]: "fails_at_eoi (parseIf_elifs n elifStmts s)"
proof (induction n arbitrary: elifStmts s)
  case 0
  show ?case by simp
next
  case (Suc n)
  show ?case unfolding parseIf_elifs_Suc by (intro fails_intros Suc parseIf_cond_block_fails)
qed

lemma parseIf_else_fails [simp]: "fails_at_eoi (parseIf_else n s)"
  unfolding parseIf_else_eq by (intro fails_intros parseIf_block_fails)

lemma parseIf_elif_part_fails [simp]: "fails_at_eoi (parseIf_elif_part n s)"
  unfolding parseIf_elif_part_eq
  by (intro fails_intros parseIf_cond_block_fails parseIf_elifs_fails)

lemma parseIf_fails [simp]: "fails_at_eoi (parseIf n s)"
  unfolding parseIf_eq by (intro fails_intros parseIf_elif_part_fails parseIf_else_fails)


declare parseDec_vars.simps(2) [simp del] parseDec_values.simps(2) [simp del]
  parseIf_block.simps(2) [simp del] parseIf_elifs.simps(2) [simp del]

section \<open>Fuel of the statement routines\<close>

lemma parseAssign_fuel_Suc: "fuel_le (parseAssign n s) (parseAssign (Suc n) s)"
  unfolding parseAssign_eq parseAssign_expr_eq
  by (intro fuel_intros parseFinal_fuel_Suc parseLogic_fuel_Suc parseExpr_fuel_Suc)

lemma parseInit_fuel_Suc: "fuel_le (parseInit isBool n s) (parseInit isBool (Suc n) s)"
  unfolding parseInit_eq by (intro fuel_intros parseLogic_fuel_Suc parseExpr_fuel_Suc)

lemma parseDec_vars_fuel_Suc:
  "fuel_le (parseDec_vars n Vars count s) (parseDec_vars (Suc n) Vars count s)"
proof (induction n arbitrary: Vars count s)
  case 0
  show ?case by simp
next
  case (Suc n)
  show ?case
    by (rule fuel_le_unfold [OF parseDec_vars_Suc parseDec_vars_Suc]) (intro fuel_intros Suc)
qed

lemma parseDec_values_fuel_Suc:
  "fuel_le (parseDec_values isBool n Values count s) (parseDec_values isBool (Suc n) Values count s)"
proof (induction n arbitrary: Values count s)
  case 0
  show ?case by simp
next
  case (Suc n)
  show ?case
    by (rule fuel_le_unfold [OF parseDec_values_Suc parseDec_values_Suc])
       (intro fuel_intros Suc parseInit_fuel_Suc)
qed

lemma parseDec_fuel_Suc: "fuel_le (parseDec isBool n s) (parseDec isBool (Suc n) s)"
  unfolding parseDec_eq
  by (intro fuel_intros parseDec_vars_fuel_Suc parseDec_values_fuel_Suc parseInit_fuel_Suc)

lemma parseIf_block_fuel_Suc:
  "fuel_le (parseIf_block n assignments s) (parseIf_block (Suc n) assignments s)"
proof (induction n arbitrary: assignments s)
  case 0
  show ?case by simp
next
  case (Suc n)
  show ?case
    by (rule fuel_le_unfold [OF parseIf_block_Suc parseIf_block_Suc])
       (intro fuel_intros Suc parseAssign_fuel_Suc)
qed

lemma parseIf_cond_block_fuel_Suc:
  "fuel_le (parseIf_cond_block n s) (parseIf_cond_block (Suc n) s)"
  unfolding parseIf_cond_block_eq
  by (intro fuel_intros parseLogic_fuel_Suc parseIf_block_fuel_Suc)

lemma parseIf_elifs_fuel_Suc:
  "fuel_le (parseIf_elifs n elifStmts s) (parseIf_elifs (Suc n) elifStmts s)"
proof (induction n arbitrary: elifStmts s)
  case 0
  show ?case by simp
next
  case (Suc n)
  show ?case
    by (rule fuel_le_unfold [OF parseIf_elifs_Suc parseIf_elifs_Suc])
       (intro fuel_intros Suc parseIf_cond_block_fuel_Suc)
qed

lemma parseIf_fuel_Suc: "fuel_le (parseIf n s) (parseIf (Suc n) s)"
  unfolding parseIf_eq parseIf_elif_part_eq parseIf_else_eq
  by (intro fuel_intros parseIf_cond_block_fuel_Suc parseIf_elifs_fuel_Suc parseIf_block_fuel_Suc)

section \<open>The program loop\<close>

lemma parseProgram_assign_eq:
  "parseProgram_assign n s =
    trial (parseAssign n s)
      (\<lambda>a s1. if getKind (Tok s1) \<noteq> Token_semicolon then Some (None, error s1)
               else Some (Some (AST_Assignment a), s1))
      (\<lambda>s1. if getKind (Tok s1) \<noteq> Token_semicolon then Some (None, error s1) else Some (None, s1))"
  by (simp add: parseProgram_assign_def trial_def is_kind_def split: option.splits prod.splits)

lemma parseStatement_eq:
  "parseStatement ext n s =
    (if getKind (Tok s) = Token_KW_int then map_result AST_Declaration (parseIntDec n s)
     else if getKind (Tok s) = Token_KW_bool then map_result AST_Declaration (parseBoolDec n s)
     else if getKind (Tok s) = Token_ident then
       (if fst (parseUnary s) = None then parseProgram_assign n (snd (parseUnary s)\<lparr>toks := toks s\<rparr>)
        else if getKind (Tok (snd (parseUnary s))) = Token_semicolon then
          Some (Some (AST_UnaryOp (the (fst (parseUnary s)))), snd (parseUnary s))
        else Some (None, error (snd (parseUnary s))))
     else if getKind (Tok s) = Token_KW_if then map_result AST_IfStmt (parseIf n s)
     else if getKind (Tok s) = Token_KW_while then
       Some (map_option AST_WhileStmt (fst (parseWhile ext s)), snd (parseWhile ext s))
     else if getKind (Tok s) = Token_KW_for then
       Some (map_option AST_ForStmt (fst (parseFor ext s)), snd (parseFor ext s))
     else if getKind (Tok s) = Token_KW_print then
       Some (map_option AST_PrintStmt (fst (parsePrint ext s)), snd (parsePrint ext s))
     else Some (None, error s))"
  by (simp add: parseStatement_def map_result_def is_kind_def split: option.splits prod.splits)

lemma parseProgram_assign_fuel_Suc:
  "fuel_le (parseProgram_assign n s) (parseProgram_assign (Suc n) s)"
  unfolding parseProgram_assign_eq by (intro fuel_intros parseAssign_fuel_Suc)

lemma parseStatement_fuel_Suc: "fuel_le (parseStatement ext n s) (parseStatement ext (Suc n) s)"
  unfolding parseStatement_eq parseIntDec_def parseBoolDec_def
  by (intro fuel_intros parseDec_fuel_Suc parseIf_fuel_Suc parseProgram_assign_fuel_Suc)

lemma parseProgram_loop_Suc:
  "parseProgram_loop ext (Suc n) data s =
    (if getKind (Tok s) \<noteq> Token_eoi then
       trial (parseStatement ext n (s\<lparr>haveElse := True\<rparr>))
         (\<lambda>node s1. parseProgram_loop ext n (data @ [node]) (if haveElse s1 then advance s1 else s1))
         (\<lambda>s1. Some (None, recover s1))
     else Some (Some (Program data), s))"
  by (simp add: trial_def is_kind_def split: option.splits prod.splits)

declare parseProgram_loop.simps(2) [simp del]

lemma parseProgram_loop_fuel_Suc:
  "fuel_le (parseProgram_loop ext n data s) (parseProgram_loop ext (Suc n) data s)"
proof (induction n arbitrary: data s)
  case 0
  show ?case by simp
next
  case (Suc n)
  show ?case
    by (rule fuel_le_unfold [OF parseProgram_loop_Suc parseProgram_loop_Suc])
       (intro fuel_intros Suc parseStatement_fuel_Suc)
qed

lemma parse_mono: "parse ext n s = Some r \<Longrightarrow> n \<le> m \<Longrightarrow> parse ext m s = Some r"
  unfolding parse_def parseProgram_def
  using fuel_mono [of "\<lambda>n. parseProgram_loop ext n [] s"] parseProgram_loop_fuel_Suc by blast

lemma parseAssign_mono: "parseAssign n s = Some r \<Longrightarrow> n \<le> m \<Longrightarrow> parseAssign m s = Some r"
  using fuel_mono [of "\<lambda>n. parseAssign n s"] parseAssign_fuel_Suc by blast

lemma parseProgram_loop_at_eoi:
  "parseProgram_loop ext n data s = Some (r, s') \<Longrightarrow> getKind (Tok s') = Token_eoi"
proof (induction n arbitrary: data s)
  case 0
  then show ?case by simp
next
  case (Suc n)
  then show ?case
    by (auto simp: parseProgram_loop_Suc trial_def split: if_splits option.splits)
qed


section \<open>Claims settled by evaluation\<close>

text \<open>
  C1. The claim: for every well-formed token sequence \<open>parse\<close> returns a Program whose
  statement count is the number of top-level statements. The assignment \<^verbatim>\<open>x = y + z ;\<close>
  is well formed (an identifier, \<^verbatim>\<open>=\<close>, an arithmetic expression, the terminator).
  With enough fuel \<open>parse\<close> returns the null pointer on it and reports the token \<^verbatim>\<open>+\<close>,
  and with any fuel it returns no Program.
\<close>

theorem C1_assignment_of_a_sum_is_rejected:
  "parse no_routines 30
     (start [tok Token_ident ''x'', tok Token_assign ''='', tok Token_ident ''y'',
             tok Token_plus ''+'', tok Token_ident ''z'', tok Token_semicolon '';''])
   = Some (None, \<lparr>toks = [], diags = [tok Token_plus ''+''], haveElse = True\<rparr>)
   \<and> (\<forall>n. parse no_routines n
        (start [tok Token_ident ''x'', tok Token_assign ''='', tok Token_ident ''y'',
                tok Token_plus ''+'', tok Token_ident ''z'', tok Token_semicolon '';''])
      \<in> {None, Some (None, \<lparr>toks = [], diags = [tok Token_plus ''+''], haveElse = True\<rparr>)})"
proof -
  let ?s = "start [tok Token_ident ''x'', tok Token_assign ''='', tok Token_ident ''y'',
                   tok Token_plus ''+'', tok Token_ident ''z'', tok Token_semicolon '';'']"
  let ?r = "(None, \<lparr>toks = [], diags = [tok Token_plus ''+''], haveElse = True\<rparr>)"
  have at30: "parse no_routines 30 ?s = Some ?r"
    by code_simp
  have "parse no_routines n ?s \<in> {None, Some ?r}" for n
  proof (cases "parse no_routines n ?s")
    case None
    then show ?thesis by simp
  next
    case (Some r)
    then have "parse no_routines (max n 30) ?s = Some r"
      by (rule parse_mono) simp
    moreover from at30 have "parse no_routines (max n 30) ?s = Some ?r"
      by (rule parse_mono) simp
    ultimately show ?thesis using Some by simp
  qed
  with at30 show ?thesis by blast
qed

text \<open>
  C3. The claim: after \<^verbatim>\<open>=\<close> the right-hand side is first tried as a logic expression and
  then parsed as an arithmetic expression, so that \<^verbatim>\<open>x = y && z ;\<close> gets a logic node and
  \<^verbatim>\<open>x = y + z ;\<close> an arithmetic node. The first input does get its logic node. On the
  second the trial parse succeeds on the prefix \<^verbatim>\<open>y\<close>: \<open>parseAssign\<close> returns an
  Assignment whose arithmetic right-hand side is null and whose logic right-hand side is
  the identifier form of a Comparison, and stops in front of \<^verbatim>\<open>+\<close>.
\<close>

theorem C3_sum_after_assign_becomes_logic_node:
  "parseAssign 30
     (start [tok Token_ident ''x'', tok Token_assign ''='', tok Token_ident ''y'',
             tok Token_KW_and ''&&'', tok Token_ident ''z'', tok Token_semicolon '';''])
   = Some (Some (Assignment (Final Final_Ident ''x'') None Assignment_Assign
                   (Some (LogicalExpr (ComparisonNode None None None ''y'')
                                      (ComparisonNode None None None ''z'') LogicalExpr_And))),
           \<lparr>toks = [tok Token_semicolon '';''], diags = [], haveElse = False\<rparr>)
   \<and> parseAssign 30
     (start [tok Token_ident ''x'', tok Token_assign ''='', tok Token_ident ''y'',
             tok Token_plus ''+'', tok Token_ident ''z'', tok Token_semicolon '';''])
   = Some (Some (Assignment (Final Final_Ident ''x'') None Assignment_Assign
                   (Some (ComparisonNode None None None ''y''))),
           \<lparr>toks = [tok Token_plus ''+'', tok Token_ident ''z'', tok Token_semicolon '';''],
              diags = [], haveElse = False\<rparr>)"
  by code_simp

text \<open>
  C6. The claim: a Comparison node built for a relational comparison stores the relational
  operator that was parsed. For \<^verbatim>\<open>1 == 2\<close> the node has both operands, and its member
  \<^verbatim>\<open>Op\<close> was never written: it is not \<open>Comparison_Equal\<close>.
\<close>

theorem C6_relational_operator_is_not_stored:
  "parseComparison 30 (start [tok Token_number ''1'', tok Token_eq ''=='', tok Token_number ''2''])
   = Some (Some (ComparisonNode (Some (Final Final_Number ''1'')) (Some (Final Final_Number ''2''))
                   None []),
           \<lparr>toks = [], diags = [], haveElse = False\<rparr>)
   \<and> getOperator (ComparisonNode (Some (Final Final_Number ''1'')) (Some (Final Final_Number ''2''))
                   None []) \<noteq> Some Comparison_Equal"
  by code_simp


section \<open>Exponentiation\<close>

lemma parseFactor_mono: "parseFactor n s = Some r \<Longrightarrow> n \<le> m \<Longrightarrow> parseFactor m s = Some r"
  using fuel_mono [of "\<lambda>n. parseFactor n s"] arith_fuel_Suc by blast

lemma parseFactor_loop_stop:
  "getKind (Tok s) \<noteq> Token_exp \<Longrightarrow> parseFactor_loop (Suc n) L s = Some (Some L, s)"
  by (simp add: parseFactor_loop_Suc)

lemma parseFactor_loop_step:
  "getKind (Tok s) = Token_exp \<Longrightarrow> parseFactor n (advance s) = Some (Some R, s1) \<Longrightarrow>
   parseFactor_loop (Suc n) L s = parseFactor_loop n (BinaryOp BinaryOp_Exp L R) s1"
  by (simp add: parseFactor_loop_Suc seq_def)

lemma parseFactor_step:
  "parseFinal n s = Some (Some L, s1) \<Longrightarrow> parseFactor (Suc n) s = parseFactor_loop n L s1"
  by (simp add: parseFactor_Suc seq_def)

text \<open>
  C5. The exponent operator is right-associative. Whenever \<open>parseFinal\<close> reads an operand
  \<open>a\<close>, then after \<^verbatim>\<open>^\<close> an operand \<open>b\<close>, then after a second \<^verbatim>\<open>^\<close> an operand \<open>c\<close>, and
  no third \<^verbatim>\<open>^\<close> follows, \<open>parseFactor\<close> returns \<open>BinaryOp Exp a (BinaryOp Exp b c)\<close>,
  for every fuel that is at least five more than what the operands need.
\<close>

theorem C5_exponent_is_right_associative:
  assumes a: "parseFinal n s = Some (Some a, s1)" and "getKind (Tok s1) = Token_exp"
    and b: "parseFinal n (advance s1) = Some (Some b, s2)" and "getKind (Tok s2) = Token_exp"
    and c: "parseFinal n (advance s2) = Some (Some c, s3)" and "getKind (Tok s3) \<noteq> Token_exp"
    and m: "n + 5 \<le> m"
  shows "parseFactor m s =
           Some (Some (BinaryOp BinaryOp_Exp a (BinaryOp BinaryOp_Exp b c)), s3)"
proof -
  from a obtain k where n: "n = Suc k" by (cases n) (simp_all add: arith_0)
  have "parseFactor (Suc n) (advance s2) = parseFactor_loop n c s3"
    using c by (rule parseFactor_step)
  also have "\<dots> = Some (Some c, s3)"
    unfolding n using assms(6) by (rule parseFactor_loop_stop)
  finally have p3: "parseFactor (Suc n) (advance s2) = Some (Some c, s3)" .
  have "parseFactor_loop (Suc (Suc n)) b s2 = parseFactor_loop (Suc n) (BinaryOp BinaryOp_Exp b c) s3"
    using assms(4) p3 by (rule parseFactor_loop_step)
  also have "\<dots> = Some (Some (BinaryOp BinaryOp_Exp b c), s3)"
    using assms(6) by (rule parseFactor_loop_stop)
  finally have l2: "parseFactor_loop (Suc (Suc n)) b s2 = Some (Some (BinaryOp BinaryOp_Exp b c), s3)" .
  have "parseFinal (Suc (Suc n)) (advance s1) = Some (Some b, s2)"
    using b by (rule parseFinal_mono) simp
  then have "parseFactor (Suc (Suc (Suc n))) (advance s1) = parseFactor_loop (Suc (Suc n)) b s2"
    by (rule parseFactor_step)
  with l2 have p2: "parseFactor (Suc (Suc (Suc n))) (advance s1)
      = Some (Some (BinaryOp BinaryOp_Exp b c), s3)"
    by simp
  have "parseFactor_loop (Suc (Suc (Suc (Suc n)))) a s1
      = parseFactor_loop (Suc (Suc (Suc n))) (BinaryOp BinaryOp_Exp a (BinaryOp BinaryOp_Exp b c)) s3"
    using assms(2) p2 by (rule parseFactor_loop_step)
  also have "\<dots> = Some (Some (BinaryOp BinaryOp_Exp a (BinaryOp BinaryOp_Exp b c)), s3)"
    using assms(6) by (rule parseFactor_loop_stop)
  finally have l1: "parseFactor_loop (Suc (Suc (Suc (Suc n)))) a s1
      = Some (Some (BinaryOp BinaryOp_Exp a (BinaryOp BinaryOp_Exp b c)), s3)" .
  have "parseFinal (Suc (Suc (Suc (Suc n)))) s = Some (Some a, s1)"
    using a by (rule parseFinal_mono) simp
  then have "parseFactor (Suc (Suc (Suc (Suc (Suc n))))) s = parseFactor_loop (Suc (Suc (Suc (Suc n)))) a s1"
    by (rule parseFactor_step)
  with l1 have "parseFactor (Suc (Suc (Suc (Suc (Suc n))))) s
      = Some (Some (BinaryOp BinaryOp_Exp a (BinaryOp BinaryOp_Exp b c)), s3)"
    by simp
  then show ?thesis
    by (rule parseFactor_mono) (use m in simp)
qed

text \<open>The instance \<^verbatim>\<open>2 ^ 3 ^ 2\<close>.\<close>

theorem C5_exponent_witness:
  "parseFactor 6 (start [tok Token_number ''2'', tok Token_exp ''^'', tok Token_number ''3'',
                         tok Token_exp ''^'', tok Token_number ''2''])
   = Some (Some (BinaryOp BinaryOp_Exp (Final Final_Number ''2'')
                   (BinaryOp BinaryOp_Exp (Final Final_Number ''3'') (Final Final_Number ''2''))),
           start [])"
proof -
  let ?s1 = "start [tok Token_exp ''^'', tok Token_number ''3'', tok Token_exp ''^'', tok Token_number ''2'']"
  let ?s2 = "start [tok Token_exp ''^'', tok Token_number ''2'']"
  have 1: "parseFinal 1 (start [tok Token_number ''2'', tok Token_exp ''^'', tok Token_number ''3'',
                         tok Token_exp ''^'', tok Token_number ''2'']) = Some (Some (Final Final_Number ''2''), ?s1)"
    by code_simp
  have 2: "getKind (Tok ?s1) = Token_exp" by code_simp
  have 3: "parseFinal 1 (advance ?s1) = Some (Some (Final Final_Number ''3''), ?s2)"
    by code_simp
  have 4: "getKind (Tok ?s2) = Token_exp" by code_simp
  have 5: "parseFinal 1 (advance ?s2) = Some (Some (Final Final_Number ''2''), start [])"
    by code_simp
  have 7: "getKind (Tok (start [])) \<noteq> Token_exp" by code_simp
  show ?thesis
    by (rule C5_exponent_is_right_associative [OF 1 2 3 4 5 7]) simp
qed

section \<open>Declarations\<close>

lemma parseDec_vars_count:
  "parseDec_vars n Vars count s = Some (Some (Vars', count'), s') \<Longrightarrow>
   \<exists>more. Vars' = Vars @ more \<and> count' = count + int (length more)"
proof (induction n arbitrary: Vars count s)
  case 0
  then show ?case by simp
next
  case (Suc n)
  show ?case
  proof (cases "getKind (Tok s) = Token_comma")
    case False
    with Suc.prems show ?thesis by (simp add: parseDec_vars_Suc)
  next
    case True
    with Suc.prems have "parseDec_vars n (Vars @ [getText (Tok (advance s))]) (count + 1)
        (advance (advance s)) = Some (Some (Vars', count'), s')"
      by (simp add: parseDec_vars_Suc split: if_splits)
    from Suc.IH [OF this] show ?thesis by auto
  qed
qed

lemma parseDec_values_count:
  "parseDec_values isBool n Values count s = Some (Some Values', s') \<Longrightarrow> 0 \<le> count \<Longrightarrow>
   int (length Values') \<le> int (length Values) + count"
proof (induction n arbitrary: Values count s)
  case 0
  then show ?case by simp
next
  case (Suc n)
  show ?case
  proof (cases "getKind (Tok s) = Token_comma")
    case False
    with Suc.prems show ?thesis by (simp add: parseDec_values_Suc)
  next
    case True
    with Suc.prems have nz: "count \<noteq> 0"
      by (auto simp: parseDec_values_Suc)
    with True Suc.prems obtain E s1 where
      "parseDec_values isBool n (Values @ [E]) (count - 1) s1 = Some (Some Values', s')"
      by (auto simp: parseDec_values_Suc seq_def split: option.splits)
    from Suc.IH [OF this] nz Suc.prems(2) show ?thesis by simp
  qed
qed

lemma parseDec_count:
  assumes "parseDec isBool n s = Some (Some d, s')"
  shows "length (getValues d) \<le> length (getVars d)"
proof -
  from assms obtain Vars count s3 where
    vars: "parseDec_vars n [getText (Tok (advance s))] 1 (advance (advance s)) = Some (Some (Vars, count), s3)"
    and rest: "seq0 (if getKind (Tok s3) = Token_assign then
                    seq (parseInit isBool n (advance s3))
                      (\<lambda>E. parseDec_values isBool n [E] (count - 1))
                  else Some (Some [], s3))
              (\<lambda>Values s5.
                 if getKind (Tok s5) \<noteq> Token_semicolon then Some (None, recover (error s5))
                 else Some (Some (Declaration Vars Values), s5)) = Some (Some d, s')"
    by (auto simp: parseDec_eq seq0_def split: if_splits option.splits)
  from parseDec_vars_count [OF vars] obtain more where
    V: "Vars = getText (Tok (advance s)) # more" and c: "count = 1 + int (length more)"
    by auto
  show ?thesis
  proof (cases "getKind (Tok s3) = Token_assign")
    case False
    with rest show ?thesis by (auto simp: seq0_def split: if_splits)
  next
    case True
    with rest obtain E s4 Values where
      vals: "parseDec_values isBool n [E] (count - 1) s4 = Some (Some Values, s')"
      and d: "d = Declaration Vars Values"
      by (auto simp: seq0_def seq_def split: if_splits option.splits)
    from parseDec_values_count [OF vals] c have "int (length Values) \<le> 1 + (count - 1)"
      by simp
    with c V d show ?thesis by simp
  qed
qed


text \<open>
  C4 as stated fails: \<^verbatim>\<open>int a , b = 1 ;\<close> is accepted with two names and one
  initialiser.
\<close>

theorem C4_fewer_initialisers_counterexample:
  "parseIntDec 30
     (start [tok Token_KW_int ''int'', tok Token_ident ''a'', tok Token_comma '','',
             tok Token_ident ''b'', tok Token_assign ''='', tok Token_number ''1'',
             tok Token_semicolon '';''])
   = Some (Some (Declaration [''a'', ''b''] [ExprValue (Final Final_Number ''1'')]),
           start [tok Token_semicolon '';''])
   \<and> length (getValues (Declaration [''a'', ''b''] [ExprValue (Final Final_Number ''1'')])) \<noteq> 0
   \<and> length (getValues (Declaration [''a'', ''b''] [ExprValue (Final Final_Number ''1'')]))
       \<noteq> length (getVars (Declaration [''a'', ''b''] [ExprValue (Final Final_Number ''1'')]))"
  by code_simp

text \<open>
  C4, amended. Every Declaration that \<open>parseIntDec\<close> or \<open>parseBoolDec\<close> returns has at
  most as many initialisers as names. \<^verbatim>\<open>int a , b = 1 , 2 ;\<close> succeeds with two
  initialisers, and \<^verbatim>\<open>int a , b = 1 , 2 , 3 ;\<close> returns the null pointer after one
  diagnostic, reported at the comma in front of the third initialiser.
\<close>

theorem C4_initialisers_do_not_exceed_names:
  "(\<forall>n s d s'. parseIntDec n s = Some (Some d, s') \<or> parseBoolDec n s = Some (Some d, s')
       \<longrightarrow> length (getValues d) \<le> length (getVars d))
   \<and> parseIntDec 30
       (start [tok Token_KW_int ''int'', tok Token_ident ''a'', tok Token_comma '','',
               tok Token_ident ''b'', tok Token_assign ''='', tok Token_number ''1'',
               tok Token_comma '','', tok Token_number ''2'', tok Token_semicolon '';''])
     = Some (Some (Declaration [''a'', ''b'']
                     [ExprValue (Final Final_Number ''1''), ExprValue (Final Final_Number ''2'')]),
             start [tok Token_semicolon '';''])
   \<and> parseIntDec 30
       (start [tok Token_KW_int ''int'', tok Token_ident ''a'', tok Token_comma '','',
               tok Token_ident ''b'', tok Token_assign ''='', tok Token_number ''1'',
               tok Token_comma '','', tok Token_number ''2'', tok Token_comma '','',
               tok Token_number ''3'', tok Token_semicolon '';''])
     = Some (None, \<lparr>toks = [], diags = [tok Token_comma '',''], haveElse = False\<rparr>)"
proof -
  have "length (getValues d) \<le> length (getVars d)"
    if "parseIntDec n s = Some (Some d, s') \<or> parseBoolDec n s = Some (Some d, s')"
    for n s d s'
    using that parseDec_count by (auto simp: parseIntDec_def parseBoolDec_def)
  moreover have "parseIntDec 30
       (start [tok Token_KW_int ''int'', tok Token_ident ''a'', tok Token_comma '','',
               tok Token_ident ''b'', tok Token_assign ''='', tok Token_number ''1'',
               tok Token_comma '','', tok Token_number ''2'', tok Token_semicolon '';''])
     = Some (Some (Declaration [''a'', ''b'']
                     [ExprValue (Final Final_Number ''1''), ExprValue (Final Final_Number ''2'')]),
             start [tok Token_semicolon '';''])"
    by code_simp
  moreover have "parseIntDec 30
       (start [tok Token_KW_int ''int'', tok Token_ident ''a'', tok Token_comma '','',
               tok Token_ident ''b'', tok Token_assign ''='', tok Token_number ''1'',
               tok Token_comma '','', tok Token_number ''2'', tok Token_comma '','',
               tok Token_number ''3'', tok Token_semicolon '';''])
     = Some (None, \<lparr>toks = [], diags = [tok Token_comma '',''], haveElse = False\<rparr>)"
    by code_simp
  ultimately show ?thesis by blast
qed

text \<open>The bound at a declaration of a Boolean: \<^verbatim>\<open>bool p , q = true ;\<close>.\<close>

theorem C4_initialisers_witness:
  "parseBoolDec 30
     (start [tok Token_KW_bool ''bool'', tok Token_ident ''p'', tok Token_comma '','',
             tok Token_ident ''q'', tok Token_assign ''='', tok Token_true ''true'',
             tok Token_semicolon '';''])
   = Some (Some (Declaration [''p'', ''q''] [LogicValue (ComparisonNode None None None ''true'')]),
           start [tok Token_semicolon '';''])
   \<and> length (getValues (Declaration [''p'', ''q''] [LogicValue (ComparisonNode None None None ''true'')]))
       \<le> length (getVars (Declaration [''p'', ''q''] [LogicValue (ComparisonNode None None None ''true'')]))"
proof -
  have e: "parseBoolDec 30
     (start [tok Token_KW_bool ''bool'', tok Token_ident ''p'', tok Token_comma '','',
             tok Token_ident ''q'', tok Token_assign ''='', tok Token_true ''true'',
             tok Token_semicolon '';''])
   = Some (Some (Declaration [''p'', ''q''] [LogicValue (ComparisonNode None None None ''true'')]),
           start [tok Token_semicolon '';''])"
    by code_simp
  with C4_initialisers_do_not_exceed_names show ?thesis by blast
qed

section \<open>The alternatives of Final\<close>

text \<open>
  C9 as stated fails: \<^verbatim>\<open>+ ( 1 )\<close> is not accepted as a Final. After a leading plus only a
  number is accepted; \<open>parseFinal\<close> returns the null pointer without a diagnostic.
\<close>

theorem C9_plus_parenthesis_counterexample:
  "parseFinal 30 (start [tok Token_plus ''+'', tok Token_l_paren ''('', tok Token_number ''1'',
                         tok Token_r_paren '')''])
   = Some (None, \<lparr>toks = [], diags = [], haveElse = False\<rparr>)"
  by code_simp

text \<open>
  C9, amended. \<open>parseFinal\<close> decides on the kind of the current token: a number is a
  Final of kind Number; an identifier followed by \<^verbatim>\<open>++\<close> or \<^verbatim>\<open>--\<close> is a UnaryOp and any
  other identifier a Final of kind Ident; a plus must be followed by a number and gives a
  SignedNumber, anything else after it (also a parenthesis) gives the null pointer; a
  minus followed by a number gives a SignedNumber and a minus followed by a parenthesised
  expression a NegExpr; a parenthesised expression gives the expression itself; every
  other token is an error.
\<close>

theorem C9_final_alternatives:
  "(getKind (Tok s) = Token_number \<longrightarrow>
      parseFinal (Suc n) s = Some (Some (Final Final_Number (getText (Tok s))), advance s))
   \<and> (getKind (Tok s) = Token_ident \<longrightarrow>
      parseFinal (Suc n) s =
        (if getKind (Tok (advance s)) = Token_plus_plus then
           Some (Some (UnaryOp UnaryOp_Plus_plus (getText (Tok s))), advance (advance s))
         else if getKind (Tok (advance s)) = Token_minus_minus then
           Some (Some (UnaryOp UnaryOp_Minus_minus (getText (Tok s))), advance (advance s))
         else Some (Some (Final Final_Ident (getText (Tok s))), advance s)))
   \<and> (getKind (Tok s) = Token_plus \<longrightarrow>
      parseFinal (Suc n) s =
        (if getKind (Tok (advance s)) = Token_number then
           Some (Some (SignedNumber SignedNumber_Plus (getText (Tok (advance s)))), advance (advance s))
         else Some (None, recover (advance s))))
   \<and> (getKind (Tok s) = Token_minus \<and> getKind (Tok (advance s)) = Token_number \<longrightarrow>
      parseFinal (Suc n) s =
        Some (Some (SignedNumber SignedNumber_Minus (getText (Tok (advance s)))), advance (advance s)))
   \<and> (getKind (Tok s) = Token_minus \<and> getKind (Tok (advance s)) = Token_l_paren
        \<and> parseExpr n (advance (advance s)) = Some (Some e, s2)
        \<and> getKind (Tok s2) = Token_r_paren \<longrightarrow>
      parseFinal (Suc n) s = Some (Some (NegExpr e), advance s2))
   \<and> (getKind (Tok s) = Token_l_paren \<and> parseExpr n (advance s) = Some (Some e, s2)
        \<and> getKind (Tok s2) = Token_r_paren \<longrightarrow>
      parseFinal (Suc n) s = Some (Some e, advance s2))
   \<and> (getKind (Tok s) \<notin> {Token_number, Token_ident, Token_plus, Token_minus, Token_l_paren} \<longrightarrow>
      parseFinal (Suc n) s = Some (None, recover (error s)))"
  by (simp add: parseFinal_Suc seq_def)

text \<open>The alternatives after a sign, at \<^verbatim>\<open>+ 7\<close>, \<^verbatim>\<open>+ ( 1 )\<close> and \<^verbatim>\<open>- ( 1 )\<close>.\<close>

theorem C9_final_alternatives_witness:
  "parseFinal 4 (start [tok Token_plus ''+'', tok Token_number ''7''])
     = Some (Some (SignedNumber SignedNumber_Plus ''7''), start [])
   \<and> parseFinal 4 (start [tok Token_plus ''+'', tok Token_l_paren ''('', tok Token_number ''1'',
                           tok Token_r_paren '')''])
     = Some (None, start [])
   \<and> parseFinal 5 (start [tok Token_minus ''-'', tok Token_l_paren ''('', tok Token_number ''1'',
                           tok Token_r_paren '')''])
     = Some (Some (NegExpr (Final Final_Number ''1'')), start [])"
proof -
  let ?p7 = "start [tok Token_plus ''+'', tok Token_number ''7'']"
  let ?pp = "start [tok Token_plus ''+'', tok Token_l_paren ''('', tok Token_number ''1'',
                    tok Token_r_paren '')'']"
  let ?mp = "start [tok Token_minus ''-'', tok Token_l_paren ''('', tok Token_number ''1'',
                    tok Token_r_paren '')'']"
  have k: "getKind (Tok ?p7) = Token_plus" "getKind (Tok ?pp) = Token_plus"
    "getKind (Tok ?mp) = Token_minus \<and> getKind (Tok (advance ?mp)) = Token_l_paren
      \<and> parseExpr 4 (advance (advance ?mp)) = Some (Some (Final Final_Number ''1''), start [tok Token_r_paren '')''])
      \<and> getKind (Tok (start [tok Token_r_paren '')''])) = Token_r_paren"
    by code_simp+
  have v: "getKind (Tok (advance ?p7)) = Token_number" "getText (Tok (advance ?p7)) = ''7''"
    "advance (advance ?p7) = start []" "getKind (Tok (advance ?pp)) \<noteq> Token_number"
    "recover (advance ?pp) = start []" "advance (start [tok Token_r_paren '')'']) = start []"
    by code_simp+
  have "parseFinal (Suc 3) ?p7 = Some (Some (SignedNumber SignedNumber_Plus ''7''), start [])"
    using C9_final_alternatives [of ?p7 3] k v by simp
  moreover have "parseFinal (Suc 3) ?pp = Some (None, start [])"
    using C9_final_alternatives [of ?pp 3] k v by simp
  moreover have "parseFinal (Suc 4) ?mp = Some (Some (NegExpr (Final Final_Number ''1'')), start [])"
    using C9_final_alternatives [of ?mp 4 "Final Final_Number ''1''" "start [tok Token_r_paren '')'']"] k v
    by simp
  ultimately show ?thesis by (simp add: eval_nat_numeral)
qed


section \<open>Comparisons that start with an identifier\<close>

lemma parseFactor_loop_first:
  "parseFactor_loop n L s = Some (Some e, s') \<Longrightarrow> first_is_ident e = first_is_ident L"
proof (induction n arbitrary: L s)
  case 0
  then show ?case by (simp add: arith_0)
next
  case (Suc n)
  show ?case
  proof (cases "getKind (Tok s) = Token_exp")
    case False
    with Suc.prems show ?thesis by (simp add: parseFactor_loop_Suc)
  next
    case True
    with Suc.prems obtain R s1 where
      "parseFactor_loop n (BinaryOp BinaryOp_Exp L R) s1 = Some (Some e, s')"
      by (auto simp: parseFactor_loop_Suc seq_def split: option.splits)
    from Suc.IH [OF this] show ?thesis by simp
  qed
qed

lemma parseTerm_loop_first:
  "parseTerm_loop n L s = Some (Some e, s') \<Longrightarrow> first_is_ident e = first_is_ident L"
proof (induction n arbitrary: L s)
  case 0
  then show ?case by (simp add: arith_0)
next
  case (Suc n)
  show ?case
  proof (cases "getKind (Tok s) = Token_star \<or> getKind (Tok s) = Token_mod \<or> getKind (Tok s) = Token_slash")
    case False
    with Suc.prems show ?thesis by (simp add: parseTerm_loop_Suc)
  next
    case True
    with Suc.prems obtain Op R s1 where
      "parseTerm_loop n (BinaryOp Op L R) s1 = Some (Some e, s')"
      by (auto simp: parseTerm_loop_Suc seq_def split: option.splits)
    from Suc.IH [OF this] show ?thesis by simp
  qed
qed

lemma parseExpr_loop_first:
  "parseExpr_loop n L s = Some (Some e, s') \<Longrightarrow> first_is_ident e = first_is_ident L"
proof (induction n arbitrary: L s)
  case 0
  then show ?case by (simp add: arith_0)
next
  case (Suc n)
  show ?case
  proof (cases "getKind (Tok s) = Token_plus \<or> getKind (Tok s) = Token_minus")
    case False
    with Suc.prems show ?thesis by (simp add: parseExpr_loop_Suc)
  next
    case True
    with Suc.prems obtain Op R s1 where
      "parseExpr_loop n (BinaryOp Op L R) s1 = Some (Some e, s')"
      by (auto simp: parseExpr_loop_Suc seq_def split: option.splits)
    from Suc.IH [OF this] show ?thesis by simp
  qed
qed

lemma parseFinal_first:
  assumes "parseFinal n s = Some (Some e, s')"
    and "getKind (Tok s) \<noteq> Token_ident" and "getKind (Tok s) \<noteq> Token_l_paren"
  shows "\<not> first_is_ident e"
proof (cases n)
  case 0
  with assms show ?thesis by (simp add: arith_0)
next
  case (Suc k)
  with assms show ?thesis
    by (auto simp: parseFinal_Suc seq_def split: if_splits option.splits)
qed

lemma parseFactor_first:
  assumes "parseFactor n s = Some (Some e, s')"
    and "getKind (Tok s) \<noteq> Token_ident" and "getKind (Tok s) \<noteq> Token_l_paren"
  shows "\<not> first_is_ident e"
proof (cases n)
  case 0
  with assms show ?thesis by (simp add: arith_0)
next
  case (Suc k)
  with assms(1) obtain L s1 where "parseFinal k s = Some (Some L, s1)"
    and "parseFactor_loop k L s1 = Some (Some e, s')"
    by (auto simp: parseFactor_Suc seq_def split: option.splits)
  with assms(2,3) show ?thesis
    using parseFinal_first parseFactor_loop_first by blast
qed

lemma parseTerm_first:
  assumes "parseTerm n s = Some (Some e, s')"
    and "getKind (Tok s) \<noteq> Token_ident" and "getKind (Tok s) \<noteq> Token_l_paren"
  shows "\<not> first_is_ident e"
proof (cases n)
  case 0
  with assms show ?thesis by (simp add: arith_0)
next
  case (Suc k)
  with assms(1) obtain L s1 where "parseFactor k s = Some (Some L, s1)"
    and "parseTerm_loop k L s1 = Some (Some e, s')"
    by (auto simp: parseTerm_Suc seq_def split: option.splits)
  with assms(2,3) show ?thesis
    using parseFactor_first parseTerm_loop_first by blast
qed

lemma parseExpr_first:
  assumes "parseExpr n s = Some (Some e, s')"
    and "getKind (Tok s) \<noteq> Token_ident" and "getKind (Tok s) \<noteq> Token_l_paren"
  shows "\<not> first_is_ident e"
proof (cases n)
  case 0
  with assms show ?thesis by (simp add: arith_0)
next
  case (Suc k)
  with assms(1) obtain L s1 where "parseTerm k s = Some (Some L, s1)"
    and "parseExpr_loop k L s1 = Some (Some e, s')"
    by (auto simp: parseExpr_Suc seq_def split: option.splits)
  with assms(2,3) show ?thesis
    using parseTerm_first parseExpr_loop_first by blast
qed

lemma parseExpr_first_cases:
  "parseExpr n s = Some (Some e, s') \<Longrightarrow> first_is_ident e \<Longrightarrow>
   getKind (Tok s) = Token_ident \<or> getKind (Tok s) = Token_l_paren"
  using parseExpr_first by blast

lemma logic_no_ident_led_relation:
  "(\<forall>s L s'. parseComparison n s = Some (Some L, s') \<longrightarrow> no_ident_led_relation L) \<and>
   (\<forall>s L s'. parseLogic n s = Some (Some L, s') \<longrightarrow> no_ident_led_relation L) \<and>
   (\<forall>s A L s'. parseLogic_loop n A s = Some (Some L, s') \<longrightarrow> no_ident_led_relation A \<longrightarrow>
        no_ident_led_relation L)"
proof (induction n)
  case 0
  show ?case by (simp add: logic_0)
next
  case (Suc n)
  then have ih:
    "\<And>s L s'. parseComparison n s = Some (Some L, s') \<Longrightarrow> no_ident_led_relation L"
    "\<And>s L s'. parseLogic n s = Some (Some L, s') \<Longrightarrow> no_ident_led_relation L"
    "\<And>s A L s'. parseLogic_loop n A s = Some (Some L, s') \<Longrightarrow> no_ident_led_relation A \<Longrightarrow>
        no_ident_led_relation L"
    by blast+
  have "no_ident_led_relation L" if "parseComparison (Suc n) s = Some (Some L, s')" for s L s'
    using that
    by (auto simp: parseComparison_Suc seq_def split: if_splits option.splits
             dest: ih(2))
       (blast dest: parseExpr_first_cases)+
  moreover have "no_ident_led_relation L" if "parseLogic (Suc n) s = Some (Some L, s')" for s L s'
    using that
    by (auto simp: parseLogic_Suc seq_def split: option.splits) (blast intro: ih)
  moreover have "no_ident_led_relation L"
    if "parseLogic_loop (Suc n) A s = Some (Some L, s')" and "no_ident_led_relation A" for s A L s'
    using that
    by (auto simp: parseLogic_loop_Suc seq_def split: if_splits option.splits)
       (use ih no_ident_led_relation.simps(2) in blast)+
  ultimately show ?case by blast
qed

text \<open>
  C10. When the current token is an identifier, \<open>parseComparison\<close> returns the
  identifier form of a Comparison (no operands, the spelling as text) and advances by
  exactly that token, whatever follows. A Comparison with operands is returned only from
  a position that is not an identifier, and in no tree that \<open>parseComparison\<close> or
  \<open>parseLogic\<close> returns does the left operand of a Comparison start with an identifier.
\<close>

theorem C10_identifier_is_never_a_relational_operand:
  "(getKind (Tok s) = Token_ident \<longrightarrow>
      parseComparison (Suc n) s
        = Some (Some (ComparisonNode None None None (getText (Tok s))), advance s))
   \<and> (parseComparison n s = Some (Some (ComparisonNode (Some l) r Op v), s') \<longrightarrow>
        getKind (Tok s) \<noteq> Token_ident \<and> \<not> first_is_ident l)
   \<and> (parseComparison n s = Some (Some L, s') \<or> parseLogic n s = Some (Some L, s') \<longrightarrow>
        no_ident_led_relation L)"
proof -
  have 1: "parseComparison (Suc n) s
        = Some (Some (ComparisonNode None None None (getText (Tok s))), advance s)"
    if "getKind (Tok s) = Token_ident"
    using that by (simp add: parseComparison_Suc)
  have 3: "no_ident_led_relation L"
    if "parseComparison n s = Some (Some L, s') \<or> parseLogic n s = Some (Some L, s')"
    using that logic_no_ident_led_relation by blast
  have 2: "getKind (Tok s) \<noteq> Token_ident \<and> \<not> first_is_ident l"
    if c: "parseComparison n s = Some (Some (ComparisonNode (Some l) r Op v), s')"
  proof
    show "getKind (Tok s) \<noteq> Token_ident"
    proof
      assume "getKind (Tok s) = Token_ident"
      moreover from c obtain k where "n = Suc k" by (cases n) (simp_all add: logic_0)
      ultimately show False using c by (simp add: parseComparison_Suc)
    qed
    from c logic_no_ident_led_relation have "no_ident_led_relation (ComparisonNode (Some l) r Op v)"
      by blast
    then show "\<not> first_is_ident l" by simp
  qed
  from 1 2 3 show ?thesis by blast
qed

text \<open>The condition \<^verbatim>\<open>x == 5\<close>: the identifier form is returned and \<^verbatim>\<open>== 5\<close> is left.\<close>

theorem C10_identifier_witness:
  "parseComparison 30 (start [tok Token_ident ''x'', tok Token_eq ''=='', tok Token_number ''5''])
     = Some (Some (ComparisonNode None None None ''x''),
             start [tok Token_eq ''=='', tok Token_number ''5''])
   \<and> no_ident_led_relation (ComparisonNode None None None ''x'')"
proof -
  let ?s = "start [tok Token_ident ''x'', tok Token_eq ''=='', tok Token_number ''5'']"
  have k: "getKind (Tok ?s) = Token_ident" "getText (Tok ?s) = ''x''"
    "advance ?s = start [tok Token_eq ''=='', tok Token_number ''5'']"
    by code_simp+
  have "parseComparison (Suc 29) ?s = Some (Some (ComparisonNode None None None ''x''),
             start [tok Token_eq ''=='', tok Token_number ''5''])"
    using C10_identifier_is_never_a_relational_operand [where s = ?s and n = 29] k by simp
  then have e: "parseComparison 30 ?s = Some (Some (ComparisonNode None None None ''x''),
             start [tok Token_eq ''=='', tok Token_number ''5''])"
    by simp
  with C10_identifier_is_never_a_relational_operand
         [where s = ?s and n = 30 and L = "ComparisonNode None None None ''x''"]
  show ?thesis by blast
qed


section \<open>The global haveElse\<close>

lemma haveElse_simps [simp]:
  "haveElse (advance s) = haveElse s" "haveElse (error s) = haveElse s"
  "haveElse (recover s) = haveElse s"
  by (simp_all add: advance_def error_def recover_def)

lemma keeps_haveElse_simps [simp]:
  "keeps_haveElse h None" "keeps_haveElse h (Some (x, s)) = (haveElse s = h)"
  by (simp_all add: keeps_haveElse_def)

lemma seq_trial: "seq m f = trial m f (\<lambda>s1. Some (None, recover s1))"
  by (simp add: seq_def trial_def)

lemma seq0_trial: "seq0 m f = trial m f (\<lambda>s1. Some (None, s1))"
  by (simp add: seq0_def trial_def)

lemma keeps_haveElse_trial:
  assumes "keeps_haveElse h m"
    and f: "\<And>x s1. haveElse s1 = h \<Longrightarrow> keeps_haveElse h (f x s1)"
    and g: "\<And>s1. haveElse s1 = h \<Longrightarrow> keeps_haveElse h (g s1)"
  shows "keeps_haveElse h (trial m f g)"
proof (cases m)
  case None
  then show ?thesis by (simp add: trial_def)
next
  case (Some p)
  obtain y s1 where p: "p = (y, s1)" by (cases p)
  with Some assms(1) have h1: "haveElse s1 = h" by simp
  show ?thesis
  proof (cases y)
    case None
    with Some p g [OF h1] show ?thesis by (simp add: trial_def)
  next
    case (Some x)
    with \<open>m = Some p\<close> p f [OF h1, of x] show ?thesis by (simp add: trial_def)
  qed
qed

lemma keeps_haveElse_seq:
  assumes "keeps_haveElse h m"
    and "\<And>x s1. haveElse s1 = h \<Longrightarrow> keeps_haveElse h (f x s1)"
  shows "keeps_haveElse h (seq m f)"
  unfolding seq_trial
proof (rule keeps_haveElse_trial)
  show "keeps_haveElse h m" by (rule assms(1))
  show "keeps_haveElse h (f x s1)" if "haveElse s1 = h" for x s1 using that by (rule assms(2))
  show "keeps_haveElse h (Some (None, recover s1))" if "haveElse s1 = h" for s1
    using that by simp
qed

lemma keeps_haveElse_seq0:
  assumes "keeps_haveElse h m"
    and "\<And>x s1. haveElse s1 = h \<Longrightarrow> keeps_haveElse h (f x s1)"
  shows "keeps_haveElse h (seq0 m f)"
  unfolding seq0_trial
proof (rule keeps_haveElse_trial)
  show "keeps_haveElse h m" by (rule assms(1))
  show "keeps_haveElse h (f x s1)" if "haveElse s1 = h" for x s1 using that by (rule assms(2))
  show "keeps_haveElse h (Some (None, s1))" if "haveElse s1 = h" for s1
    using that by simp
qed

lemma keeps_haveElse_map: "keeps_haveElse h m \<Longrightarrow> keeps_haveElse h (map_result k m)"
  by (cases m) (auto simp: map_result_def)

lemma keeps_haveElse_if:
  "keeps_haveElse h a \<Longrightarrow> keeps_haveElse h b \<Longrightarrow> keeps_haveElse h (if c then a else b)"
  by simp

lemmas keeps_intros = keeps_haveElse_seq keeps_haveElse_seq0 keeps_haveElse_trial
  keeps_haveElse_map keeps_haveElse_if

lemma arith_keeps_haveElse:
  "(\<forall>s. keeps_haveElse (haveElse s) (parseExpr n s)) \<and>
   (\<forall>s L. keeps_haveElse (haveElse s) (parseExpr_loop n L s)) \<and>
   (\<forall>s. keeps_haveElse (haveElse s) (parseTerm n s)) \<and>
   (\<forall>s L. keeps_haveElse (haveElse s) (parseTerm_loop n L s)) \<and>
   (\<forall>s. keeps_haveElse (haveElse s) (parseFactor n s)) \<and>
   (\<forall>s L. keeps_haveElse (haveElse s) (parseFactor_loop n L s)) \<and>
   (\<forall>s. keeps_haveElse (haveElse s) (parseFinal n s))"
proof (induction n)
  case 0
  show ?case by (simp add: arith_0)
next
  case (Suc n)
  then have ih0: "\<And>s. keeps_haveElse (haveElse s) (parseExpr n s)"
    "\<And>s L. keeps_haveElse (haveElse s) (parseExpr_loop n L s)"
    "\<And>s. keeps_haveElse (haveElse s) (parseTerm n s)"
    "\<And>s L. keeps_haveElse (haveElse s) (parseTerm_loop n L s)"
    "\<And>s. keeps_haveElse (haveElse s) (parseFactor n s)"
    "\<And>s L. keeps_haveElse (haveElse s) (parseFactor_loop n L s)"
    "\<And>s. keeps_haveElse (haveElse s) (parseFinal n s)"
    by blast+
  have ih: "\<And>s h. haveElse s = h \<Longrightarrow> keeps_haveElse h (parseExpr n s)"
    "\<And>s L h. haveElse s = h \<Longrightarrow> keeps_haveElse h (parseExpr_loop n L s)"
    "\<And>s h. haveElse s = h \<Longrightarrow> keeps_haveElse h (parseTerm n s)"
    "\<And>s L h. haveElse s = h \<Longrightarrow> keeps_haveElse h (parseTerm_loop n L s)"
    "\<And>s h. haveElse s = h \<Longrightarrow> keeps_haveElse h (parseFactor n s)"
    "\<And>s L h. haveElse s = h \<Longrightarrow> keeps_haveElse h (parseFactor_loop n L s)"
    "\<And>s h. haveElse s = h \<Longrightarrow> keeps_haveElse h (parseFinal n s)"
    using ih0 by (erule_tac [!] subst) simp_all
  show ?case
    unfolding arith_Suc by (intro conjI allI keeps_intros ih; simp)
qed

lemma parseExpr_keeps: "haveElse s = h \<Longrightarrow> keeps_haveElse h (parseExpr n s)"
  using arith_keeps_haveElse [of n] by (erule_tac subst) simp

lemma parseFinal_keeps: "haveElse s = h \<Longrightarrow> keeps_haveElse h (parseFinal n s)"
  using arith_keeps_haveElse [of n] by (erule_tac subst) simp

lemma logic_keeps_haveElse:
  "(\<forall>s. keeps_haveElse (haveElse s) (parseComparison n s)) \<and>
   (\<forall>s. keeps_haveElse (haveElse s) (parseLogic n s)) \<and>
   (\<forall>s L. keeps_haveElse (haveElse s) (parseLogic_loop n L s))"
proof (induction n)
  case 0
  show ?case by (simp add: logic_0)
next
  case (Suc n)
  then have ih0: "\<And>s. keeps_haveElse (haveElse s) (parseComparison n s)"
    "\<And>s. keeps_haveElse (haveElse s) (parseLogic n s)"
    "\<And>s L. keeps_haveElse (haveElse s) (parseLogic_loop n L s)"
    by blast+
  have ih: "\<And>s h. haveElse s = h \<Longrightarrow> keeps_haveElse h (parseComparison n s)"
    "\<And>s h. haveElse s = h \<Longrightarrow> keeps_haveElse h (parseLogic n s)"
    "\<And>s L h. haveElse s = h \<Longrightarrow> keeps_haveElse h (parseLogic_loop n L s)"
    using ih0 by (erule_tac [!] subst) simp_all
  show ?case
    unfolding logic_Suc by (intro conjI allI keeps_intros ih parseExpr_keeps; simp)
qed

lemma parseLogic_keeps: "haveElse s = h \<Longrightarrow> keeps_haveElse h (parseLogic n s)"
  using logic_keeps_haveElse [of n] by (erule_tac subst) simp

lemma parseAssign_keeps: "haveElse s = h \<Longrightarrow> keeps_haveElse h (parseAssign n s)"
  unfolding parseAssign_eq parseAssign_expr_eq
  by (intro keeps_intros parseFinal_keeps parseLogic_keeps parseExpr_keeps; simp)

lemma parseInit_keeps: "haveElse s = h \<Longrightarrow> keeps_haveElse h (parseInit isBool n s)"
  unfolding parseInit_eq by (intro keeps_intros parseLogic_keeps parseExpr_keeps; simp)

lemma parseDec_vars_keeps: "haveElse s = h \<Longrightarrow> keeps_haveElse h (parseDec_vars n Vars count s)"
proof (induction n arbitrary: Vars count s)
  case 0
  show ?case by simp
next
  case (Suc n)
  show ?case unfolding parseDec_vars_Suc by (intro keeps_intros Suc.IH; simp add: Suc.prems)
qed

lemma parseDec_values_keeps:
  "haveElse s = h \<Longrightarrow> keeps_haveElse h (parseDec_values isBool n Values count s)"
proof (induction n arbitrary: Values count s)
  case 0
  show ?case by simp
next
  case (Suc n)
  show ?case unfolding parseDec_values_Suc
    by (intro keeps_intros Suc.IH parseInit_keeps; simp add: Suc.prems)
qed

lemma parseDec_keeps: "haveElse s = h \<Longrightarrow> keeps_haveElse h (parseDec isBool n s)"
  unfolding parseDec_eq
  by (intro keeps_intros parseDec_vars_keeps parseDec_values_keeps parseInit_keeps; simp)

lemma parseIf_block_keeps: "haveElse s = h \<Longrightarrow> keeps_haveElse h (parseIf_block n assignments s)"
proof (induction n arbitrary: assignments s)
  case 0
  show ?case by simp
next
  case (Suc n)
  show ?case unfolding parseIf_block_Suc
    by (intro keeps_intros Suc.IH parseAssign_keeps; simp add: Suc.prems)
qed

lemma parseIf_cond_block_keeps: "haveElse s = h \<Longrightarrow> keeps_haveElse h (parseIf_cond_block n s)"
  unfolding parseIf_cond_block_eq
  by (intro keeps_intros parseLogic_keeps parseIf_block_keeps; simp)

lemma parseIf_elifs_keeps: "haveElse s = h \<Longrightarrow> keeps_haveElse h (parseIf_elifs n elifStmts s)"
proof (induction n arbitrary: elifStmts s)
  case 0
  show ?case by simp
next
  case (Suc n)
  show ?case unfolding parseIf_elifs_Suc
    by (intro keeps_intros Suc.IH parseIf_cond_block_keeps; simp add: Suc.prems)
qed

lemma parseIf_elif_part_keeps: "keeps_haveElse False (parseIf_elif_part n s)"
  unfolding parseIf_elif_part_eq
  by (intro keeps_intros parseIf_cond_block_keeps parseIf_elifs_keeps; simp)

section \<open>Where the if statement stops\<close>

lemma parseIf_block_stops:
  "parseIf_block n assignments s = Some (Some r, s') \<Longrightarrow> getKind (Tok s') = Token_KW_end"
proof (induction n arbitrary: assignments s)
  case 0
  then show ?case by simp
next
  case (Suc n)
  show ?case
  proof (cases "getKind (Tok s) = Token_KW_end")
    case True
    with Suc.prems show ?thesis by (simp add: parseIf_block_Suc)
  next
    case False
    with Suc.prems obtain a s1 where
      "parseIf_block n (assignments @ [a]) (advance s1) = Some (Some r, s')"
      by (auto simp: parseIf_block_Suc seq_def split: if_splits option.splits)
    then show ?thesis by (rule Suc.IH)
  qed
qed

lemma parseIf_cond_block_stops:
  assumes "parseIf_cond_block n s = Some (Some r, s')"
  shows "getKind (Tok s') = Token_KW_end"
proof -
  from assms obtain s1 a where "parseIf_block n [] s1 = Some (Some a, s')"
    by (auto simp: parseIf_cond_block_eq seq_def seq0_def split: if_splits option.splits)
  then show ?thesis by (rule parseIf_block_stops)
qed

lemma parseIf_elifs_stops:
  "parseIf_elifs n elifStmts s = Some (Some r, s') \<Longrightarrow>
   s' = s \<or> (\<exists>s_end. getKind (Tok s_end) = Token_KW_end \<and> s' = advance s_end)"
proof (induction n arbitrary: elifStmts s)
  case 0
  then show ?case by simp
next
  case (Suc n)
  show ?case
  proof (cases "getKind (Tok s) = Token_KW_elif")
    case False
    with Suc.prems show ?thesis by (simp add: parseIf_elifs_Suc)
  next
    case True
    with Suc.prems obtain ca s1 where cb: "parseIf_cond_block n (advance s) = Some (Some ca, s1)"
      and rest: "parseIf_elifs n (elifStmts @ [elifStmt (fst ca) (snd ca)]) (advance s1) = Some (Some r, s')"
      by (auto simp: parseIf_elifs_Suc seq0_def split: option.splits)
    from Suc.IH [OF rest] parseIf_cond_block_stops [OF cb] show ?thesis by blast
  qed
qed

lemma parseIf_elif_part_stops:
  assumes "parseIf_elif_part n s = Some (Some p, s_e)"
  shows "haveElse s_e = False \<and> (\<exists>s_end. getKind (Tok s_end) = Token_KW_end \<and> s_e = advance s_end)"
proof
  from parseIf_elif_part_keeps [of n s] assms show "haveElse s_e = False"
    by (simp add: keeps_haveElse_def)
  from assms obtain ca s2 r where cb: "parseIf_cond_block n (advance (s\<lparr>haveElse := False\<rparr>)) = Some (Some ca, s2)"
    and el: "parseIf_elifs n [] (advance s2) = Some (Some r, s_e)"
    by (auto simp: parseIf_elif_part_eq seq0_def split: if_splits option.splits)
  from parseIf_elifs_stops [OF el] parseIf_cond_block_stops [OF cb]
  show "\<exists>s_end. getKind (Tok s_end) = Token_KW_end \<and> s_e = advance s_end" by blast
qed

lemma parseIf_else_stops:
  assumes "parseIf_else n s = Some (Some r, s')"
  shows "if getKind (Tok s) = Token_KW_else
         then haveElse s' \<and> getKind (Tok s') = Token_KW_end else s' = s"
proof (cases "getKind (Tok s) = Token_KW_else")
  case False
  with assms show ?thesis by (simp add: parseIf_else_eq)
next
  case True
  with assms have b: "parseIf_block n [] (advance (advance (advance (s\<lparr>haveElse := True\<rparr>))))
      = Some (Some r, s')"
    by (simp add: parseIf_else_eq split: if_splits)
  from parseIf_block_keeps [of "advance (advance (advance (s\<lparr>haveElse := True\<rparr>)))" True n "[]"] b
  have "haveElse s'" by (simp add: keeps_haveElse_def)
  with parseIf_block_stops [OF b] True show ?thesis by simp
qed

lemma parseIf_stops:
  assumes "parseIf n s = Some (Some i, s')"
  shows "\<exists>p s_e. parseIf_elif_part n s = Some (Some p, s_e)
           \<and> haveElse s' = (getKind (Tok s_e) = Token_KW_else)
           \<and> (\<exists>s_end. getKind (Tok s_end) = Token_KW_end \<and> s_e = advance s_end)
           \<and> (if haveElse s' then getKind (Tok s') = Token_KW_end else s' = s_e)"
proof -
  from assms obtain p s_e r where ep: "parseIf_elif_part n s = Some (Some p, s_e)"
    and el: "parseIf_else n s_e = Some (Some r, s')"
    by (auto simp: parseIf_eq seq0_def split: option.splits)
  from parseIf_elif_part_stops [OF ep] have h: "\<not> haveElse s_e"
    and e: "\<exists>s_end. getKind (Tok s_end) = Token_KW_end \<and> s_e = advance s_end"
    by simp_all
  note c = parseIf_else_stops [OF el]
  have 2: "haveElse s' = (getKind (Tok s_e) = Token_KW_else)"
    using h c by (cases "getKind (Tok s_e) = Token_KW_else") simp_all
  have 4: "if haveElse s' then getKind (Tok s') = Token_KW_end else s' = s_e"
    using h c by (cases "getKind (Tok s_e) = Token_KW_else") simp_all
  from ep 2 e 4 show ?thesis by blast
qed


section \<open>Statements that start with an identifier\<close>

lemma restore_after_parseUnary:
  "getKind (Tok s) = Token_ident \<Longrightarrow> fst (parseUnary s) = None \<Longrightarrow>
   snd (parseUnary s)\<lparr>toks := toks s\<rparr> = s"
  by (auto simp: parseUnary_eq recover_def advance_def split: if_splits)

text \<open>
  C7 as stated fails. In \<^verbatim>\<open>x ++ += 1 ;\<close> the unary statement \<^verbatim>\<open>x ++\<close> is parsed and is
  not followed by the terminator. The statement is then an error: the cursor is not
  restored, although \<open>parseAssign\<close> from the position of \<^verbatim>\<open>x\<close> returns an Assignment
  and stops at the terminator.
\<close>

theorem C7_unary_without_terminator_counterexample:
  "parseUnary (start [tok Token_ident ''x'', tok Token_plus_plus ''++'',
                      tok Token_plus_assign ''+='', tok Token_number ''1'',
                      tok Token_semicolon '';''])
     = (Some (UnaryOp UnaryOp_Plus_plus ''x''),
        start [tok Token_plus_assign ''+='', tok Token_number ''1'', tok Token_semicolon '';''])
   \<and> parseAssign 30 (start [tok Token_ident ''x'', tok Token_plus_plus ''++'',
                            tok Token_plus_assign ''+='', tok Token_number ''1'',
                            tok Token_semicolon '';''])
     = Some (Some (Assignment (UnaryOp UnaryOp_Plus_plus ''x'') (Some (Final Final_Number ''1''))
                     Assignment_Plus_assign None),
             start [tok Token_semicolon '';''])
   \<and> parseStatement no_routines 30
        (start [tok Token_ident ''x'', tok Token_plus_plus ''++'',
                tok Token_plus_assign ''+='', tok Token_number ''1'', tok Token_semicolon '';''])
     = Some (None, \<lparr>toks = [tok Token_plus_assign ''+='', tok Token_number ''1'',
                              tok Token_semicolon '';''],
                      diags = [tok Token_plus_assign ''+=''], haveElse = False\<rparr>)
   \<and> parse no_routines 30
        (start [tok Token_ident ''x'', tok Token_plus_plus ''++'',
                tok Token_plus_assign ''+='', tok Token_number ''1'', tok Token_semicolon '';''])
     = Some (None, \<lparr>toks = [], diags = [tok Token_plus_assign ''+=''], haveElse = True\<rparr>)"
  by code_simp

text \<open>
  C7, amended. At an identifier the statement is decided by the next token. If it is
  \<^verbatim>\<open>++\<close> or \<^verbatim>\<open>--\<close>, the unary statement is parsed: followed by the terminator it is the
  statement, and followed by anything else the statement is an error, reported at that
  token, with no second attempt. If it is any other token, the trial parse fails, the
  cursor is restored to the identifier and the statement is parsed as an Assignment from
  there (\<open>parseProgram_assign\<close>: \<open>parseAssign\<close> and the test for the terminator).
\<close>

theorem C7_statement_at_an_identifier:
  assumes "getKind (Tok s) = Token_ident"
  shows "parseStatement ext n s =
    (if getKind (Tok (advance s)) = Token_plus_plus \<or> getKind (Tok (advance s)) = Token_minus_minus
     then
       (if getKind (Tok (advance (advance s))) = Token_semicolon then
          Some (Some (AST_UnaryOp
                  (UnaryOp (if getKind (Tok (advance s)) = Token_plus_plus then UnaryOp_Plus_plus
                            else UnaryOp_Minus_minus) (getText (Tok s)))),
                advance (advance s))
        else Some (None, error (advance (advance s))))
     else parseProgram_assign n s)"
proof (cases "getKind (Tok (advance s)) = Token_plus_plus \<or> getKind (Tok (advance s)) = Token_minus_minus")
  case True
  with assms show ?thesis by (auto simp: parseStatement_eq parseUnary_eq)
next
  case False
  with assms have "fst (parseUnary s) = None" by (simp add: parseUnary_eq)
  with assms False restore_after_parseUnary [of s] show ?thesis
    by (simp add: parseStatement_eq)
qed

text \<open>The three cases, at \<^verbatim>\<open>x ++ ;\<close>, \<^verbatim>\<open>x ++ += 1 ;\<close> and \<^verbatim>\<open>x += 1 ;\<close>.\<close>

theorem C7_statement_witness:
  "parseStatement no_routines 30
     (start [tok Token_ident ''x'', tok Token_plus_plus ''++'', tok Token_semicolon '';''])
     = Some (Some (AST_UnaryOp (UnaryOp UnaryOp_Plus_plus ''x'')), start [tok Token_semicolon '';''])
   \<and> parseStatement no_routines 30
     (start [tok Token_ident ''x'', tok Token_plus_plus ''++'',
             tok Token_plus_assign ''+='', tok Token_number ''1'', tok Token_semicolon '';''])
     = Some (None, error (start [tok Token_plus_assign ''+='', tok Token_number ''1'',
                                 tok Token_semicolon '';'']))
   \<and> parseStatement no_routines 30
     (start [tok Token_ident ''x'', tok Token_plus_assign ''+='', tok Token_number ''1'',
             tok Token_semicolon '';''])
     = Some (Some (AST_Assignment (Assignment (Final Final_Ident ''x'')
                 (Some (Final Final_Number ''1'')) Assignment_Plus_assign None)),
             start [tok Token_semicolon '';''])"
proof -
  let ?a = "start [tok Token_ident ''x'', tok Token_plus_plus ''++'', tok Token_semicolon '';'']"
  let ?b = "start [tok Token_ident ''x'', tok Token_plus_plus ''++'',
             tok Token_plus_assign ''+='', tok Token_number ''1'', tok Token_semicolon '';'']"
  let ?c = "start [tok Token_ident ''x'', tok Token_plus_assign ''+='', tok Token_number ''1'',
             tok Token_semicolon '';'']"
  have k: "getKind (Tok ?a) = Token_ident" "getKind (Tok ?b) = Token_ident"
    "getKind (Tok ?c) = Token_ident" "getText (Tok ?a) = ''x''"
    "getKind (Tok (advance ?a)) = Token_plus_plus" "getKind (Tok (advance ?b)) = Token_plus_plus"
    "getKind (Tok (advance ?c)) = Token_plus_assign"
    "advance (advance ?a) = start [tok Token_semicolon '';'']"
    "advance (advance ?b) = start [tok Token_plus_assign ''+='', tok Token_number ''1'',
                                 tok Token_semicolon '';'']"
    "getKind (Tok (start [tok Token_semicolon '';''])) = Token_semicolon"
    "getKind (Tok (start [tok Token_plus_assign ''+='', tok Token_number ''1'',
                                 tok Token_semicolon '';''])) = Token_plus_assign"
    by code_simp+
  have pa: "(parseProgram_assign 30 ?c :: (unit, unit) AST result)
     = Some (Some (AST_Assignment (Assignment (Final Final_Ident ''x'')
                 (Some (Final Final_Number ''1'')) Assignment_Plus_assign None)),
             start [tok Token_semicolon '';''])"
    by code_simp
  have "parseStatement no_routines 30 ?a
     = Some (Some (AST_UnaryOp (UnaryOp UnaryOp_Plus_plus ''x'')), start [tok Token_semicolon '';''])"
    using C7_statement_at_an_identifier [of ?a no_routines 30] k by simp
  moreover have "parseStatement no_routines 30 ?b
     = Some (None, error (start [tok Token_plus_assign ''+='', tok Token_number ''1'',
                                 tok Token_semicolon '';'']))"
    using C7_statement_at_an_identifier [of ?b no_routines 30] k by simp
  moreover have "parseStatement no_routines 30 ?c
     = Some (Some (AST_Assignment (Assignment (Final Final_Ident ''x'')
                 (Some (Final Final_Number ''1'')) Assignment_Plus_assign None)),
             start [tok Token_semicolon '';''])"
    using C7_statement_at_an_identifier [of ?c no_routines 30] k pa by simp
  ultimately show ?thesis by blast
qed


section \<open>The terminator of a statement\<close>

lemma parseStatement_ident:
  assumes "getKind (Tok s) = Token_ident"
  shows "parseStatement ext n s =
    (if getKind (Tok (advance s)) = Token_plus_plus \<or> getKind (Tok (advance s)) = Token_minus_minus
     then
       (if getKind (Tok (advance (advance s))) = Token_semicolon then
          Some (Some (AST_UnaryOp
                  (UnaryOp (if getKind (Tok (advance s)) = Token_plus_plus then UnaryOp_Plus_plus
                            else UnaryOp_Minus_minus) (getText (Tok s)))),
                advance (advance s))
        else Some (None, error (advance (advance s))))
     else parseProgram_assign n s)"
proof (cases "getKind (Tok (advance s)) = Token_plus_plus \<or> getKind (Tok (advance s)) = Token_minus_minus")
  case True
  with assms show ?thesis by (auto simp: parseStatement_eq parseUnary_eq)
next
  case False
  with assms have "fst (parseUnary s) = None" by (simp add: parseUnary_eq)
  with assms False restore_after_parseUnary [of s] show ?thesis
    by (simp add: parseStatement_eq)
qed

lemma Tok_haveElse_update [simp]: "Tok (s\<lparr>haveElse := b\<rparr>) = Tok s"
  by (simp add: Tok_def)

lemma seq_Some:
  "seq m f = Some (Some y, s') \<longleftrightarrow> (\<exists>x s1. m = Some (Some x, s1) \<and> f x s1 = Some (Some y, s'))"
  by (auto simp: seq_def split: option.splits)

lemma seq0_Some:
  "seq0 m f = Some (Some y, s') \<longleftrightarrow> (\<exists>x s1. m = Some (Some x, s1) \<and> f x s1 = Some (Some y, s'))"
  by (auto simp: seq0_def split: option.splits)

lemma keeps_haveElseD: "keeps_haveElse h r \<Longrightarrow> r = Some (x, s') \<Longrightarrow> haveElse s' = h"
  by (simp add: keeps_haveElse_def)

lemma parseDec_stops:
  assumes "parseDec isBool n s = Some (Some d, s')"
  shows "getKind (Tok s') = Token_semicolon"
  using assms by (auto simp: parseDec_eq seq0_Some split: if_splits)

lemma parseProgram_assign_stops:
  assumes "parseProgram_assign n s = Some (Some node, s')"
  shows "getKind (Tok s') = Token_semicolon"
  using assms
  by (cases "parseAssign n s") (auto simp: parseProgram_assign_eq trial_def split: if_splits option.splits)

lemma parseProgram_assign_keeps:
  "haveElse s = h \<Longrightarrow> keeps_haveElse h (parseProgram_assign n s)"
  unfolding parseProgram_assign_eq by (intro keeps_intros parseAssign_keeps; simp)

lemma parseStatement_terminator:
  assumes k: "getKind (Tok s) \<in> {Token_KW_int, Token_KW_bool, Token_ident}"
    and p: "parseStatement ext n s = Some (Some node, s1)"
  shows "haveElse s1 = haveElse s \<and> getKind (Tok s1) = Token_semicolon"
proof -
  consider (int) "getKind (Tok s) = Token_KW_int" | (bool) "getKind (Tok s) = Token_KW_bool"
    | (ident) "getKind (Tok s) = Token_ident"
    using k by blast
  then show ?thesis
  proof cases
    case int
    with p obtain d where d: "parseDec False n s = Some (Some d, s1)"
      by (cases "parseDec False n s") (auto simp: parseStatement_eq parseIntDec_def map_result_def)
    from parseDec_keeps [OF refl] d have "haveElse s1 = haveElse s"
      by (rule keeps_haveElseD)
    with parseDec_stops [OF d] show ?thesis by simp
  next
    case bool
    with p obtain d where d: "parseDec True n s = Some (Some d, s1)"
      by (cases "parseDec True n s") (auto simp: parseStatement_eq parseBoolDec_def map_result_def)
    from parseDec_keeps [OF refl] d have "haveElse s1 = haveElse s"
      by (rule keeps_haveElseD)
    with parseDec_stops [OF d] show ?thesis by simp
  next
    case ident
    show ?thesis
    proof (cases "getKind (Tok (advance s)) = Token_plus_plus
                  \<or> getKind (Tok (advance s)) = Token_minus_minus")
      case True
      with ident p show ?thesis
        by (auto simp: parseStatement_ident split: if_splits)
    next
      case False
      with ident p have a: "parseProgram_assign n s = Some (Some node, s1)"
        by (simp add: parseStatement_ident)
      from parseProgram_assign_keeps [OF refl] a have "haveElse s1 = haveElse s"
        by (rule keeps_haveElseD)
      with parseProgram_assign_stops [OF a] show ?thesis by simp
    qed
  qed
qed


section \<open>The tokens that a routine leaves\<close>

lemma toks_error [simp]: "toks (error s) = toks s"
  by (simp add: error_def)

lemma suffix_advance [simp]: "suffix (toks s) ts \<Longrightarrow> suffix (toks (advance s)) ts"
  by (auto simp: advance_def intro: suffix_order.trans [OF suffix_tl])

lemma suffix_recover [simp]: "suffix (toks s) ts \<Longrightarrow> suffix (toks (recover s)) ts"
  by (auto simp: recover_def intro: suffix_order.trans [OF suffix_dropWhile])

lemma leaves_suffix_simps [simp]:
  "leaves_suffix ts None" "leaves_suffix ts (Some (x, s)) = suffix (toks s) ts"
  by (simp_all add: leaves_suffix_def)

lemma leaves_suffixD: "leaves_suffix ts r \<Longrightarrow> r = Some (x, s') \<Longrightarrow> suffix (toks s') ts"
  by (simp add: leaves_suffix_def)

lemma leaves_suffix_trial:
  assumes "leaves_suffix ts m"
    and f: "\<And>x s1. suffix (toks s1) ts \<Longrightarrow> leaves_suffix ts (f x s1)"
    and g: "\<And>s1. suffix (toks s1) ts \<Longrightarrow> leaves_suffix ts (g s1)"
  shows "leaves_suffix ts (trial m f g)"
proof (cases m)
  case None
  then show ?thesis by (simp add: trial_def)
next
  case (Some p)
  obtain y s1 where p: "p = (y, s1)" by (cases p)
  with Some assms(1) have h1: "suffix (toks s1) ts" by simp
  show ?thesis
  proof (cases y)
    case None
    with Some p g [OF h1] show ?thesis by (simp add: trial_def)
  next
    case (Some x)
    with \<open>m = Some p\<close> p f [OF h1, of x] show ?thesis by (simp add: trial_def)
  qed
qed

lemma leaves_suffix_seq:
  assumes "leaves_suffix ts m"
    and "\<And>x s1. suffix (toks s1) ts \<Longrightarrow> leaves_suffix ts (f x s1)"
  shows "leaves_suffix ts (seq m f)"
  unfolding seq_trial
proof (rule leaves_suffix_trial)
  show "leaves_suffix ts m" by (rule assms(1))
  show "leaves_suffix ts (f x s1)" if "suffix (toks s1) ts" for x s1 using that by (rule assms(2))
  show "leaves_suffix ts (Some (None, recover s1))" if "suffix (toks s1) ts" for s1
    using that by simp
qed

lemma leaves_suffix_seq0:
  assumes "leaves_suffix ts m"
    and "\<And>x s1. suffix (toks s1) ts \<Longrightarrow> leaves_suffix ts (f x s1)"
  shows "leaves_suffix ts (seq0 m f)"
  unfolding seq0_trial
proof (rule leaves_suffix_trial)
  show "leaves_suffix ts m" by (rule assms(1))
  show "leaves_suffix ts (f x s1)" if "suffix (toks s1) ts" for x s1 using that by (rule assms(2))
  show "leaves_suffix ts (Some (None, s1))" if "suffix (toks s1) ts" for s1
    using that by simp
qed

lemma leaves_suffix_map: "leaves_suffix ts m \<Longrightarrow> leaves_suffix ts (map_result k m)"
  by (cases m) (auto simp: map_result_def)

lemma leaves_suffix_if:
  "leaves_suffix ts a \<Longrightarrow> leaves_suffix ts b \<Longrightarrow> leaves_suffix ts (if c then a else b)"
  by simp

lemmas suffix_intros = leaves_suffix_seq leaves_suffix_seq0 leaves_suffix_trial
  leaves_suffix_map leaves_suffix_if

lemma arith_leaves_suffix:
  "(\<forall>s. leaves_suffix (toks s) (parseExpr n s)) \<and>
   (\<forall>s L. leaves_suffix (toks s) (parseExpr_loop n L s)) \<and>
   (\<forall>s. leaves_suffix (toks s) (parseTerm n s)) \<and>
   (\<forall>s L. leaves_suffix (toks s) (parseTerm_loop n L s)) \<and>
   (\<forall>s. leaves_suffix (toks s) (parseFactor n s)) \<and>
   (\<forall>s L. leaves_suffix (toks s) (parseFactor_loop n L s)) \<and>
   (\<forall>s. leaves_suffix (toks s) (parseFinal n s))"
proof (induction n)
  case 0
  show ?case by (simp add: arith_0)
next
  case (Suc n)
  then have ih0: "\<And>s. leaves_suffix (toks s) (parseExpr n s)"
    "\<And>s L. leaves_suffix (toks s) (parseExpr_loop n L s)"
    "\<And>s. leaves_suffix (toks s) (parseTerm n s)"
    "\<And>s L. leaves_suffix (toks s) (parseTerm_loop n L s)"
    "\<And>s. leaves_suffix (toks s) (parseFactor n s)"
    "\<And>s L. leaves_suffix (toks s) (parseFactor_loop n L s)"
    "\<And>s. leaves_suffix (toks s) (parseFinal n s)"
    by blast+
  have w: "leaves_suffix ts r" if "leaves_suffix ts' r" and "suffix ts' ts" for ts ts' and r :: "Expr result"
    using that by (auto simp: leaves_suffix_def intro: suffix_order.trans)
  have ih: "\<And>s ts. suffix (toks s) ts \<Longrightarrow> leaves_suffix ts (parseExpr n s)"
    "\<And>s L ts. suffix (toks s) ts \<Longrightarrow> leaves_suffix ts (parseExpr_loop n L s)"
    "\<And>s ts. suffix (toks s) ts \<Longrightarrow> leaves_suffix ts (parseTerm n s)"
    "\<And>s L ts. suffix (toks s) ts \<Longrightarrow> leaves_suffix ts (parseTerm_loop n L s)"
    "\<And>s ts. suffix (toks s) ts \<Longrightarrow> leaves_suffix ts (parseFactor n s)"
    "\<And>s L ts. suffix (toks s) ts \<Longrightarrow> leaves_suffix ts (parseFactor_loop n L s)"
    "\<And>s ts. suffix (toks s) ts \<Longrightarrow> leaves_suffix ts (parseFinal n s)"
    by (rule w, rule ih0, assumption)+
  show ?case
    unfolding arith_Suc by (intro conjI allI suffix_intros ih; simp)
qed


lemma leaves_suffix_weaken:
  "leaves_suffix ts' r \<Longrightarrow> suffix ts' ts \<Longrightarrow> leaves_suffix ts r"
  by (auto simp: leaves_suffix_def intro: suffix_order.trans)

lemmas parseExpr_suffix0 = arith_leaves_suffix [THEN conjunct1, rule_format]
lemmas parseTerm_suffix0 = arith_leaves_suffix [THEN conjunct2, THEN conjunct2, THEN conjunct1, rule_format]
lemmas parseFactor_suffix0 = arith_leaves_suffix [THEN conjunct2, THEN conjunct2, THEN conjunct2,
  THEN conjunct2, THEN conjunct1, rule_format]
lemmas parseFinal_suffix0 = arith_leaves_suffix [THEN conjunct2, THEN conjunct2, THEN conjunct2,
  THEN conjunct2, THEN conjunct2, THEN conjunct2, rule_format]

lemma parseExpr_suffix: "suffix (toks s) ts \<Longrightarrow> leaves_suffix ts (parseExpr n s)"
  by (rule leaves_suffix_weaken [OF parseExpr_suffix0])

lemma parseFinal_suffix: "suffix (toks s) ts \<Longrightarrow> leaves_suffix ts (parseFinal n s)"
  by (rule leaves_suffix_weaken [OF parseFinal_suffix0])

section \<open>Enough fuel\<close>

lemma length_advance_le: "length (toks (advance s)) \<le> length (toks s)"
  by (simp add: advance_def)

lemma length_advance_less:
  "getKind (Tok s) \<noteq> Token_eoi \<Longrightarrow> length (toks (advance s)) < length (toks s)"
  by (cases "toks s") (auto simp: advance_def Tok_def)

lemma returns_simps [simp]: "returns (Some r)" "\<not> returns None"
  by (simp_all add: returns_def)

lemma returns_seq:
  assumes "returns m" and "leaves_suffix ts m"
    and "\<And>x s1. length (toks s1) \<le> length ts \<Longrightarrow> returns (f x s1)"
  shows "returns (seq m f)"
proof -
  from assms(1) obtain y s1 where m: "m = Some (y, s1)" by (cases m) auto
  with assms(2) have "suffix (toks s1) ts" by simp
  then have "length (toks s1) \<le> length ts" by (rule suffix_length_le)
  from assms(3) [OF this] m show ?thesis by (cases y) (simp_all add: seq_def)
qed

lemma returns_if:
  "(c \<Longrightarrow> returns a) \<Longrightarrow> (\<not> c \<Longrightarrow> returns b) \<Longrightarrow> returns (if c then a else b)"
  by simp

lemma arith_returns:
  "(\<forall>s. 4 * length (toks s) + 4 \<le> n \<longrightarrow> returns (parseExpr n s)) \<and>
   (\<forall>s L. 4 * length (toks s) + 1 \<le> n \<longrightarrow> returns (parseExpr_loop n L s)) \<and>
   (\<forall>s. 4 * length (toks s) + 3 \<le> n \<longrightarrow> returns (parseTerm n s)) \<and>
   (\<forall>s L. 4 * length (toks s) + 1 \<le> n \<longrightarrow> returns (parseTerm_loop n L s)) \<and>
   (\<forall>s. 4 * length (toks s) + 2 \<le> n \<longrightarrow> returns (parseFactor n s)) \<and>
   (\<forall>s L. 4 * length (toks s) + 1 \<le> n \<longrightarrow> returns (parseFactor_loop n L s)) \<and>
   (\<forall>s. 4 * length (toks s) + 1 \<le> n \<longrightarrow> returns (parseFinal n s))"
proof (induction n)
  case 0
  show ?case by simp
next
  case (Suc n)
  then have ih: "\<And>s. 4 * length (toks s) + 4 \<le> n \<Longrightarrow> returns (parseExpr n s)"
    "\<And>s L. 4 * length (toks s) + 1 \<le> n \<Longrightarrow> returns (parseExpr_loop n L s)"
    "\<And>s. 4 * length (toks s) + 3 \<le> n \<Longrightarrow> returns (parseTerm n s)"
    "\<And>s L. 4 * length (toks s) + 1 \<le> n \<Longrightarrow> returns (parseTerm_loop n L s)"
    "\<And>s. 4 * length (toks s) + 2 \<le> n \<Longrightarrow> returns (parseFactor n s)"
    "\<And>s L. 4 * length (toks s) + 1 \<le> n \<Longrightarrow> returns (parseFactor_loop n L s)"
    "\<And>s. 4 * length (toks s) + 1 \<le> n \<Longrightarrow> returns (parseFinal n s)"
    by blast+
  have sfx: "\<And>s ts. suffix (toks s) ts \<Longrightarrow> leaves_suffix ts (parseExpr n s)"
    "\<And>s ts. suffix (toks s) ts \<Longrightarrow> leaves_suffix ts (parseTerm n s)"
    "\<And>s ts. suffix (toks s) ts \<Longrightarrow> leaves_suffix ts (parseFactor n s)"
    "\<And>s ts. suffix (toks s) ts \<Longrightarrow> leaves_suffix ts (parseFinal n s)"
    by (rule leaves_suffix_weaken [OF parseExpr_suffix0] leaves_suffix_weaken [OF parseTerm_suffix0]
          leaves_suffix_weaken [OF parseFactor_suffix0] leaves_suffix_weaken [OF parseFinal_suffix0],
        assumption)+
  have "returns (parseExpr (Suc n) s)" if "4 * length (toks s) + 4 \<le> Suc n" for s
    unfolding parseExpr_Suc using that
    by (intro returns_seq [where ts = "toks s"] returns_if ih sfx; simp)
  moreover have "returns (parseExpr_loop (Suc n) L s)" if "4 * length (toks s) + 1 \<le> Suc n" for s L
    unfolding parseExpr_loop_Suc using that length_advance_less [of s]
    by (intro returns_seq [where ts = "toks (advance s)"] returns_if ih sfx; auto)
  moreover have "returns (parseTerm (Suc n) s)" if "4 * length (toks s) + 3 \<le> Suc n" for s
    unfolding parseTerm_Suc using that
    by (intro returns_seq [where ts = "toks s"] returns_if ih sfx; simp)
  moreover have "returns (parseTerm_loop (Suc n) L s)" if "4 * length (toks s) + 1 \<le> Suc n" for s L
    unfolding parseTerm_loop_Suc using that length_advance_less [of s]
    by (intro returns_seq [where ts = "toks (advance s)"] returns_if ih sfx; auto)
  moreover have "returns (parseFactor (Suc n) s)" if "4 * length (toks s) + 2 \<le> Suc n" for s
    unfolding parseFactor_Suc using that
    by (intro returns_seq [where ts = "toks s"] returns_if ih sfx; simp)
  moreover have "returns (parseFactor_loop (Suc n) L s)" if "4 * length (toks s) + 1 \<le> Suc n" for s L
    unfolding parseFactor_loop_Suc using that length_advance_less [of s]
    by (intro returns_seq [where ts = "toks (advance s)"] returns_if ih sfx; auto)
  moreover have "returns (parseFinal (Suc n) s)" if "4 * length (toks s) + 1 \<le> Suc n" for s
    unfolding parseFinal_Suc using that length_advance_less [of s] length_advance_le [of "advance s"]
    by (intro returns_seq [where ts = "toks (advance s)"] returns_if ih sfx; auto)
  ultimately show ?case by blast
qed


section \<open>The tokens that the other routines leave\<close>

lemma logic_leaves_suffix:
  "(\<forall>s. leaves_suffix (toks s) (parseComparison n s)) \<and>
   (\<forall>s. leaves_suffix (toks s) (parseLogic n s)) \<and>
   (\<forall>s L. leaves_suffix (toks s) (parseLogic_loop n L s))"
proof (induction n)
  case 0
  show ?case by (simp add: logic_0)
next
  case (Suc n)
  then have ih0: "\<And>s. leaves_suffix (toks s) (parseComparison n s)"
    "\<And>s. leaves_suffix (toks s) (parseLogic n s)"
    "\<And>s L. leaves_suffix (toks s) (parseLogic_loop n L s)"
    by blast+
  have ih: "\<And>s ts. suffix (toks s) ts \<Longrightarrow> leaves_suffix ts (parseComparison n s)"
    "\<And>s ts. suffix (toks s) ts \<Longrightarrow> leaves_suffix ts (parseLogic n s)"
    "\<And>s L ts. suffix (toks s) ts \<Longrightarrow> leaves_suffix ts (parseLogic_loop n L s)"
    by (rule leaves_suffix_weaken, rule ih0, assumption)+
  show ?case
    unfolding logic_Suc by (intro conjI allI suffix_intros ih parseExpr_suffix; simp)
qed

lemmas parseComparison_suffix0 = logic_leaves_suffix [THEN conjunct1, rule_format]
lemmas parseLogic_suffix0 = logic_leaves_suffix [THEN conjunct2, THEN conjunct1, rule_format]

lemma parseLogic_suffix: "suffix (toks s) ts \<Longrightarrow> leaves_suffix ts (parseLogic n s)"
  by (rule leaves_suffix_weaken [OF parseLogic_suffix0])

lemma parseAssign_suffix: "suffix (toks s) ts \<Longrightarrow> leaves_suffix ts (parseAssign n s)"
  unfolding parseAssign_eq parseAssign_expr_eq
  by (intro suffix_intros parseFinal_suffix parseLogic_suffix parseExpr_suffix; simp)

lemma parseInit_suffix: "suffix (toks s) ts \<Longrightarrow> leaves_suffix ts (parseInit isBool n s)"
  unfolding parseInit_eq by (intro suffix_intros parseLogic_suffix parseExpr_suffix; simp)

lemma parseDec_vars_suffix:
  "suffix (toks s) ts \<Longrightarrow> leaves_suffix ts (parseDec_vars n Vars count s)"
proof (induction n arbitrary: Vars count s)
  case 0
  show ?case by simp
next
  case (Suc n)
  show ?case unfolding parseDec_vars_Suc by (intro suffix_intros Suc.IH; simp add: Suc.prems)
qed

lemma parseDec_values_suffix:
  "suffix (toks s) ts \<Longrightarrow> leaves_suffix ts (parseDec_values isBool n Values count s)"
proof (induction n arbitrary: Values count s)
  case 0
  show ?case by simp
next
  case (Suc n)
  show ?case unfolding parseDec_values_Suc
    by (intro suffix_intros Suc.IH parseInit_suffix; simp add: Suc.prems)
qed

lemma parseDec_suffix: "suffix (toks s) ts \<Longrightarrow> leaves_suffix ts (parseDec isBool n s)"
  unfolding parseDec_eq
  by (intro suffix_intros parseDec_vars_suffix parseDec_values_suffix parseInit_suffix; simp)

lemma parseIf_block_suffix:
  "suffix (toks s) ts \<Longrightarrow> leaves_suffix ts (parseIf_block n assignments s)"
proof (induction n arbitrary: assignments s)
  case 0
  show ?case by simp
next
  case (Suc n)
  show ?case unfolding parseIf_block_Suc
    by (intro suffix_intros Suc.IH parseAssign_suffix; simp add: Suc.prems)
qed

lemma parseIf_cond_block_suffix:
  "suffix (toks s) ts \<Longrightarrow> leaves_suffix ts (parseIf_cond_block n s)"
  unfolding parseIf_cond_block_eq
  by (intro suffix_intros parseLogic_suffix parseIf_block_suffix; simp)

lemma parseIf_elifs_suffix:
  "suffix (toks s) ts \<Longrightarrow> leaves_suffix ts (parseIf_elifs n elifStmts s)"
proof (induction n arbitrary: elifStmts s)
  case 0
  show ?case by simp
next
  case (Suc n)
  show ?case unfolding parseIf_elifs_Suc
    by (intro suffix_intros Suc.IH parseIf_cond_block_suffix; simp add: Suc.prems)
qed

lemma parseIf_else_suffix: "suffix (toks s) ts \<Longrightarrow> leaves_suffix ts (parseIf_else n s)"
  unfolding parseIf_else_eq by (intro suffix_intros parseIf_block_suffix; simp)

lemma parseIf_elif_part_suffix:
  "suffix (toks s) ts \<Longrightarrow> leaves_suffix ts (parseIf_elif_part n s)"
  unfolding parseIf_elif_part_eq
  by (intro suffix_intros parseIf_cond_block_suffix parseIf_elifs_suffix; simp)

lemma parseIf_suffix: "suffix (toks s) ts \<Longrightarrow> leaves_suffix ts (parseIf n s)"
  unfolding parseIf_eq by (intro suffix_intros parseIf_elif_part_suffix parseIf_else_suffix; simp)

lemma parseProgram_assign_suffix:
  "suffix (toks s) ts \<Longrightarrow> leaves_suffix ts (parseProgram_assign n s)"
  unfolding parseProgram_assign_eq by (intro suffix_intros parseAssign_suffix; simp)

text \<open>An if statement that is parsed has consumed its keyword.\<close>

lemma parseIf_consumes:
  assumes "parseIf n s = Some (Some i, s')"
  shows "length (toks s') < length (toks s)"
proof -
  from assms obtain p s1 where e: "parseIf_elif_part n s = Some (Some p, s1)"
    and "suffix (toks s') (toks s1)"
    using leaves_suffixD [OF parseIf_else_suffix [OF suffix_order.refl]]
    by (auto simp: parseIf_eq seq0_Some)
  then have 1: "length (toks s') \<le> length (toks s1)" by (simp add: suffix_length_le)
  from e have k: "getKind (Tok s) = Token_KW_if"
    by (auto simp: parseIf_elif_part_eq split: if_splits)
  with e obtain ca s2 where "parseIf_cond_block n (advance (s\<lparr>haveElse := False\<rparr>)) = Some (Some ca, s2)"
    and "suffix (toks s1) (toks (advance s2))"
    using leaves_suffixD [OF parseIf_elifs_suffix [OF suffix_order.refl]]
    by (auto simp: parseIf_elif_part_eq seq0_Some)
  then have "suffix (toks s1) (toks (advance (s\<lparr>haveElse := False\<rparr>)))"
    using leaves_suffixD [OF parseIf_cond_block_suffix [OF suffix_order.refl]]
    by (blast intro: suffix_order.trans suffix_advance)
  then have "length (toks s1) \<le> length (toks (advance (s\<lparr>haveElse := False\<rparr>)))"
    by (rule suffix_length_le)
  also have "\<dots> < length (toks (s\<lparr>haveElse := False\<rparr>))"
    using k by (intro length_advance_less) simp
  finally show ?thesis using 1 by simp
qed


section \<open>Enough fuel for the conditions and the statements\<close>

lemma returns_trial:
  assumes "returns m" and "leaves_suffix ts m"
    and f: "\<And>x s1. suffix (toks s1) ts \<Longrightarrow> length (toks s1) \<le> length ts \<Longrightarrow> returns (f x s1)"
    and g: "\<And>s1. suffix (toks s1) ts \<Longrightarrow> length (toks s1) \<le> length ts \<Longrightarrow> returns (g s1)"
  shows "returns (trial m f g)"
proof -
  from assms(1) obtain y s1 where m: "m = Some (y, s1)" by (cases m) auto
  with assms(2) have 1: "suffix (toks s1) ts" by simp
  then have 2: "length (toks s1) \<le> length ts" by (rule suffix_length_le)
  from f [OF 1 2] g [OF 1 2] m show ?thesis by (cases y) (simp_all add: trial_def)
qed

lemma returns_then:
  assumes "returns m" and "leaves_suffix ts m"
    and f: "\<And>x s1. suffix (toks s1) ts \<Longrightarrow> length (toks s1) \<le> length ts \<Longrightarrow> returns (f x s1)"
  shows "returns (seq m f)"
  unfolding seq_trial
proof (rule returns_trial)
  show "returns m" by (rule assms(1))
  show "leaves_suffix ts m" by (rule assms(2))
  show "returns (f x s1)" if "suffix (toks s1) ts" "length (toks s1) \<le> length ts" for x s1
    using that by (rule f)
  show "returns (Some (None, recover s1))" for s1 by simp
qed

lemma returns_then0:
  assumes "returns m" and "leaves_suffix ts m"
    and f: "\<And>x s1. suffix (toks s1) ts \<Longrightarrow> length (toks s1) \<le> length ts \<Longrightarrow> returns (f x s1)"
  shows "returns (seq0 m f)"
  unfolding seq0_trial
proof (rule returns_trial)
  show "returns m" by (rule assms(1))
  show "leaves_suffix ts m" by (rule assms(2))
  show "returns (f x s1)" if "suffix (toks s1) ts" "length (toks s1) \<le> length ts" for x s1
    using that by (rule f)
  show "returns (Some (None, s1))" for s1 by simp
qed

lemma returns_map: "returns m \<Longrightarrow> returns (map_result h m)"
  by (cases m) (auto simp: map_result_def)

lemmas parseExpr_returns = arith_returns [THEN conjunct1, rule_format]
lemmas parseFinal_returns = arith_returns [THEN conjunct2, THEN conjunct2, THEN conjunct2,
  THEN conjunct2, THEN conjunct2, THEN conjunct2, rule_format]

lemma parseExpr_advance_returns:
  "4 * length (toks s) + 4 \<le> n \<Longrightarrow> returns (parseExpr n (advance s))"
  using length_advance_le [of s] by (intro parseExpr_returns) simp

lemma logic_returns:
  "(\<forall>s. 4 * length (toks s) + 5 \<le> n \<longrightarrow> returns (parseComparison n s)) \<and>
   (\<forall>s. 4 * length (toks s) + 6 \<le> n \<longrightarrow> returns (parseLogic n s)) \<and>
   (\<forall>s L. 4 * length (toks s) + 2 \<le> n \<longrightarrow> returns (parseLogic_loop n L s))"
proof (induction n)
  case 0
  show ?case by simp
next
  case (Suc n)
  then have ih: "\<And>s. 4 * length (toks s) + 5 \<le> n \<Longrightarrow> returns (parseComparison n s)"
    "\<And>s. 4 * length (toks s) + 6 \<le> n \<Longrightarrow> returns (parseLogic n s)"
    "\<And>s L. 4 * length (toks s) + 2 \<le> n \<Longrightarrow> returns (parseLogic_loop n L s)"
    by blast+
  have sfx: "\<And>s ts. suffix (toks s) ts \<Longrightarrow> leaves_suffix ts (parseComparison n s)"
    "\<And>s ts. suffix (toks s) ts \<Longrightarrow> leaves_suffix ts (parseLogic n s)"
    by (rule leaves_suffix_weaken [OF parseComparison_suffix0]
          leaves_suffix_weaken [OF parseLogic_suffix0], assumption)+
  have "returns (parseComparison (Suc n) s)" if "4 * length (toks s) + 5 \<le> Suc n" for s
    unfolding parseComparison_Suc using that length_advance_less [of s]
    by (intro returns_then [where ts = "toks s"] returns_if ih sfx
          parseExpr_advance_returns parseExpr_returns parseExpr_suffix; auto)
  moreover have "returns (parseLogic (Suc n) s)" if "4 * length (toks s) + 6 \<le> Suc n" for s
    unfolding parseLogic_Suc using that
    by (intro returns_then [where ts = "toks s"] returns_if ih sfx; simp)
  moreover have "returns (parseLogic_loop (Suc n) L s)" if "4 * length (toks s) + 2 \<le> Suc n" for s L
    unfolding parseLogic_loop_Suc using that length_advance_less [of s]
    by (intro returns_then [where ts = "toks (advance s)"] returns_if ih sfx; auto)
  ultimately show ?case by blast
qed

lemmas parseLogic_returns = logic_returns [THEN conjunct2, THEN conjunct1, rule_format]

lemma parseLogic_advance_returns:
  "4 * length (toks s) + 6 \<le> n \<Longrightarrow> returns (parseLogic n (advance s))"
  using length_advance_le [of s] by (intro parseLogic_returns) simp

lemma parseAssign_returns:
  assumes "4 * length (toks s) + 6 \<le> n"
  shows "returns (parseAssign n s)"
  unfolding parseAssign_eq parseAssign_expr_eq using assms
  by (intro returns_then [where ts = "toks s"] returns_trial [where ts = "toks s"] returns_if
        parseExpr_advance_returns parseLogic_advance_returns parseFinal_returns
        parseFinal_suffix parseLogic_suffix parseExpr_suffix; simp)

lemma parseInit_returns:
  "4 * length (toks s) + 6 \<le> n \<Longrightarrow> returns (parseInit isBool n s)"
  unfolding parseInit_eq
  by (intro returns_map returns_if parseLogic_returns parseExpr_returns; simp)

lemma parseInit_advance_returns:
  "4 * length (toks s) + 6 \<le> n \<Longrightarrow> returns (parseInit isBool n (advance s))"
  using length_advance_le [of s] by (intro parseInit_returns) simp

lemma parseDec_vars_returns:
  "length (toks s) + 1 \<le> n \<Longrightarrow> returns (parseDec_vars n Vars count s)"
proof (induction n arbitrary: Vars count s)
  case 0
  then show ?case by simp
next
  case (Suc n)
  show ?case
    unfolding parseDec_vars_Suc
    using Suc.prems length_advance_less [of s] length_advance_le [of "advance s"]
    by (intro returns_if Suc.IH; auto)
qed

lemma parseDec_values_returns:
  "4 * length (toks s) + 7 \<le> n \<Longrightarrow> returns (parseDec_values isBool n Values count s)"
proof (induction n arbitrary: Values count s)
  case 0
  then show ?case by simp
next
  case (Suc n)
  show ?case
    unfolding parseDec_values_Suc using Suc.prems length_advance_less [of s]
    by (intro returns_then [where ts = "toks (advance s)"] returns_if Suc.IH
          parseInit_returns parseInit_suffix; auto)
qed

lemma parseDec_returns:
  assumes "4 * length (toks s) + 7 \<le> n"
  shows "returns (parseDec isBool n s)"
  unfolding parseDec_eq
  using assms length_advance_le [of s] length_advance_le [of "advance s"]
  by (intro returns_then0 [where ts = "toks s"] returns_then [where ts = "toks s"] returns_if
        suffix_intros parseDec_vars_returns parseDec_vars_suffix parseInit_advance_returns
        parseInit_suffix parseDec_values_returns parseDec_values_suffix; simp)

lemma parseIf_block_returns:
  "4 * length (toks s) + 7 \<le> n \<Longrightarrow> returns (parseIf_block n assignments s)"
proof (induction n arbitrary: assignments s)
  case 0
  then show ?case by simp
next
  case (Suc n)
  have ih: "returns (parseIf_block n a (advance s1))"
    if "getKind (Tok s1) = Token_semicolon" "4 * length (toks s1) + 3 \<le> n" for a s1
    using that length_advance_less [of s1] by (intro Suc.IH) simp
  show ?case
    unfolding parseIf_block_Suc using Suc.prems
    by (intro returns_then [where ts = "toks s"] returns_if ih
          parseAssign_returns parseAssign_suffix; simp)
qed

lemma parseIf_cond_block_returns:
  assumes "4 * length (toks s) + 7 \<le> n"
  shows "returns (parseIf_cond_block n s)"
proof -
  have b: "returns (parseIf_block n a (advance (advance s1)))"
    if "4 * length (toks s1) + 7 \<le> n" for a s1
    using that length_advance_le [of s1] length_advance_le [of "advance s1"]
    by (intro parseIf_block_returns) simp
  show ?thesis
    unfolding parseIf_cond_block_eq using assms
    by (intro returns_then [where ts = "toks s"] returns_then0 [where ts = "toks s"] returns_if b
          parseLogic_returns parseLogic_suffix parseIf_block_suffix; simp)
qed

lemma parseIf_elifs_returns:
  "4 * length (toks s) + 8 \<le> n \<Longrightarrow> returns (parseIf_elifs n elifStmts s)"
proof (induction n arbitrary: elifStmts s)
  case 0
  then show ?case by simp
next
  case (Suc n)
  have ih: "returns (parseIf_elifs n e (advance s1))" if "4 * length (toks s1) + 8 \<le> n" for e s1
    using that length_advance_le [of s1] by (intro Suc.IH) simp
  show ?case
    unfolding parseIf_elifs_Suc using Suc.prems length_advance_less [of s]
    by (intro returns_then0 [where ts = "toks (advance s)"] returns_if ih
          parseIf_cond_block_returns parseIf_cond_block_suffix; auto)
qed

lemma parseIf_else_returns:
  assumes "4 * length (toks s) + 7 \<le> n"
  shows "returns (parseIf_else n s)"
  unfolding parseIf_else_eq
  using assms length_advance_le [of "s\<lparr>haveElse := True\<rparr>"]
    length_advance_le [of "advance (s\<lparr>haveElse := True\<rparr>)"]
    length_advance_le [of "advance (advance (s\<lparr>haveElse := True\<rparr>))"]
  by (intro returns_if parseIf_block_returns; simp)

lemma parseIf_elif_part_returns:
  assumes "4 * length (toks s) + 8 \<le> n"
  shows "returns (parseIf_elif_part n s)"
proof -
  have e: "returns (parseIf_elifs n e (advance s1))" if "4 * length (toks s1) + 8 \<le> n" for e s1
    using that length_advance_le [of s1] by (intro parseIf_elifs_returns) simp
  show ?thesis
    unfolding parseIf_elif_part_eq using assms length_advance_le [of "s\<lparr>haveElse := False\<rparr>"]
    by (intro returns_then0 [where ts = "toks s"] returns_if e
          parseIf_cond_block_returns parseIf_cond_block_suffix parseIf_elifs_suffix; simp)
qed

lemma parseIf_returns:
  assumes "4 * length (toks s) + 8 \<le> n"
  shows "returns (parseIf n s)"
  unfolding parseIf_eq using assms
  by (intro returns_then0 [where ts = "toks s"] returns_if parseIf_elif_part_returns
        parseIf_elif_part_suffix parseIf_else_returns parseIf_else_suffix; simp)

lemma parseProgram_assign_returns:
  assumes "4 * length (toks s) + 6 \<le> n"
  shows "returns (parseProgram_assign n s :: ('for, 'print) AST result)"
  unfolding parseProgram_assign_eq using assms
  by (intro returns_trial [where ts = "toks s"] returns_if parseAssign_returns
        parseAssign_suffix; simp)

lemma parseStatement_returns:
  assumes "4 * length (toks s) + 8 \<le> n"
  shows "returns (parseStatement ext n s)"
  unfolding parseStatement_eq parseIntDec_def parseBoolDec_def using assms
  by (intro returns_map returns_if parseDec_returns parseIf_returns
        parseProgram_assign_returns; simp)

section \<open>Every statement consumes a token\<close>

lemma parseUnary_suffix: "suffix (toks (snd (parseUnary s))) (toks s)"
  by (simp add: parseUnary_eq)

lemma parseStatement_suffix:
  assumes "consuming (parseWhile ext)" "consuming (parseFor ext)" "consuming (parsePrint ext)"
  shows "leaves_suffix (toks s) (parseStatement ext n s)"
  unfolding parseStatement_eq parseIntDec_def parseBoolDec_def
  using assms parseUnary_suffix [of s]
  by (intro suffix_intros parseDec_suffix parseIf_suffix parseProgram_assign_suffix;
      simp add: consuming_def)

lemma parseStatement_consumes:
  assumes c: "consuming (parseWhile ext)" "consuming (parseFor ext)" "consuming (parsePrint ext)"
    and p: "parseStatement ext n s = Some (Some node, s1)"
    and h: "haveElse s"
  shows "length (toks (if haveElse s1 then advance s1 else s1)) < length (toks s)"
proof -
  from leaves_suffixD [OF parseStatement_suffix [OF c] p]
  have le: "length (toks s1) \<le> length (toks s)" by (rule suffix_length_le)
  consider (terminated) "getKind (Tok s) \<in> {Token_KW_int, Token_KW_bool, Token_ident}"
    | (kw_if) "getKind (Tok s) = Token_KW_if"
    | (kw_while) "getKind (Tok s) = Token_KW_while"
    | (kw_for) "getKind (Tok s) = Token_KW_for"
    | (kw_print) "getKind (Tok s) = Token_KW_print"
    | (other) "getKind (Tok s) \<notin> {Token_KW_int, Token_KW_bool, Token_ident, Token_KW_if,
        Token_KW_while, Token_KW_for, Token_KW_print}"
    by blast
  then have "length (toks s1) < length (toks s) \<or> (haveElse s1 \<and> getKind (Tok s1) \<noteq> Token_eoi)"
  proof cases
    case terminated
    from parseStatement_terminator [OF terminated p] h show ?thesis by simp
  next
    case kw_if
    with p obtain i where "parseIf n s = Some (Some i, s1)"
      by (cases "parseIf n s") (auto simp: parseStatement_eq map_result_def)
    then show ?thesis by (simp add: parseIf_consumes)
  next
    case kw_while
    with p c(1) show ?thesis
      by (auto simp: parseStatement_eq consuming_def)
  next
    case kw_for
    with p c(2) show ?thesis
      by (auto simp: parseStatement_eq consuming_def)
  next
    case kw_print
    with p c(3) show ?thesis
      by (auto simp: parseStatement_eq consuming_def)
  next
    case other
    with p show ?thesis by (simp add: parseStatement_eq)
  qed
  then show ?thesis
  proof
    assume "length (toks s1) < length (toks s)"
    then show ?thesis using length_advance_le [of s1] by simp
  next
    assume "haveElse s1 \<and> getKind (Tok s1) \<noteq> Token_eoi"
    then show ?thesis using length_advance_less [of s1] le by simp
  qed
qed

section \<open>The parser returns\<close>

lemma parseProgram_loop_returns:
  assumes c: "consuming (parseWhile ext)" "consuming (parseFor ext)" "consuming (parsePrint ext)"
  shows "4 * length (toks s) + 9 \<le> n \<Longrightarrow> returns (parseProgram_loop ext n data s)"
proof (induction n arbitrary: data s)
  case 0
  then show ?case by simp
next
  case (Suc n)
  show ?case
  proof (cases "getKind (Tok s) = Token_eoi")
    case True
    then show ?thesis by (simp add: parseProgram_loop_Suc)
  next
    case False
    from Suc.prems have "returns (parseStatement ext n (s\<lparr>haveElse := True\<rparr>))"
      by (intro parseStatement_returns) simp
    then obtain y s1 where p: "parseStatement ext n (s\<lparr>haveElse := True\<rparr>) = Some (y, s1)"
      by (cases "parseStatement ext n (s\<lparr>haveElse := True\<rparr>)") auto
    show ?thesis
    proof (cases y)
      case None
      with p False show ?thesis by (simp add: parseProgram_loop_Suc trial_def)
    next
      case (Some node)
      with p have "length (toks (if haveElse s1 then advance s1 else s1))
          < length (toks (s\<lparr>haveElse := True\<rparr>))"
        by (intro parseStatement_consumes [OF c]) simp_all
      with Suc.prems
      have "returns (parseProgram_loop ext n (data @ [node]) (if haveElse s1 then advance s1 else s1))"
        by (intro Suc.IH) simp
      with p Some False show ?thesis by (simp add: parseProgram_loop_Suc trial_def)
    qed
  qed
qed

lemma parse_returns:
  assumes "consuming (parseWhile ext)" "consuming (parseFor ext)" "consuming (parsePrint ext)"
    and "4 * length (toks s) + 9 \<le> n"
  shows "returns (parse ext n s)"
  unfolding parse_def parseProgram_def using assms by (rule parseProgram_loop_returns)

lemma consuming_panic: "consuming panic"
  by (simp add: consuming_def panic_def)

lemma parse_no_routines_returns:
  "4 * length ts + 9 \<le> n \<Longrightarrow> returns (parse no_routines n (start ts))"
  by (rule parse_returns) (simp_all add: no_routines_def consuming_panic start_def)

section \<open>The token that the loop passes\<close>

lemma Tok_advance_Cons:
  assumes "getKind (Tok s) = k" and "k \<noteq> Token_eoi"
  shows "\<exists>t. getKind t = k \<and> toks s = t # toks (advance s)"
proof (cases "toks s")
  case Nil
  with assms show ?thesis by (simp add: Tok_def)
next
  case (Cons t ts)
  with assms show ?thesis by (simp add: Tok_def advance_def)
qed

lemma parseIf_elifs_passes_end:
  "parseIf_elifs n elifStmts s = Some (Some r, s') \<Longrightarrow>
   s' = s \<or> (\<exists>t. getKind t = Token_KW_end \<and> suffix (t # toks s') (toks s))"
proof (induction n arbitrary: elifStmts s)
  case 0
  then show ?case by simp
next
  case (Suc n)
  show ?case
  proof (cases "getKind (Tok s) = Token_KW_elif")
    case False
    with Suc.prems show ?thesis by (simp add: parseIf_elifs_Suc)
  next
    case True
    with Suc.prems obtain ca s1 where cb: "parseIf_cond_block n (advance s) = Some (Some ca, s1)"
      and rest: "parseIf_elifs n (elifStmts @ [elifStmt (fst ca) (snd ca)]) (advance s1) = Some (Some r, s')"
      by (auto simp: parseIf_elifs_Suc seq0_def split: option.splits)
    from leaves_suffixD [OF parseIf_cond_block_suffix [OF suffix_order.refl] cb]
    have 1: "suffix (toks s1) (toks s)"
      by (rule suffix_order.trans) (simp add: suffix_advance)
    from parseIf_cond_block_stops [OF cb] obtain t
      where t: "getKind t = Token_KW_end" "toks s1 = t # toks (advance s1)"
      using Tok_advance_Cons [of s1 Token_KW_end] by auto
    from Suc.IH [OF rest] show ?thesis
    proof
      assume "s' = advance s1"
      with t 1 show ?thesis by auto
    next
      assume "\<exists>t. getKind t = Token_KW_end \<and> suffix (t # toks s') (toks (advance s1))"
      then obtain t' where "getKind t' = Token_KW_end" "suffix (t' # toks s') (toks (advance s1))"
        by blast
      moreover have "suffix (toks (advance s1)) (toks s)"
        using 1 by (rule suffix_advance)
      ultimately show ?thesis by (blast intro: suffix_order.trans)
    qed
  qed
qed

lemma parseIf_elif_part_passes_end:
  assumes "parseIf_elif_part n s = Some (Some p, s_e)"
  shows "\<exists>t. getKind t = Token_KW_end \<and> suffix (t # toks s_e) (toks s)"
proof -
  from assms obtain ca s2 r where cb: "parseIf_cond_block n (advance (s\<lparr>haveElse := False\<rparr>)) = Some (Some ca, s2)"
    and el: "parseIf_elifs n [] (advance s2) = Some (Some r, s_e)"
    by (auto simp: parseIf_elif_part_eq seq0_def split: if_splits option.splits)
  from leaves_suffixD [OF parseIf_cond_block_suffix [OF suffix_order.refl] cb]
  have "suffix (toks s2) (toks (advance (s\<lparr>haveElse := False\<rparr>)))" .
  moreover have "suffix (toks (advance (s\<lparr>haveElse := False\<rparr>))) (toks s)"
    using suffix_advance [of "s\<lparr>haveElse := False\<rparr>" "toks s"] by simp
  ultimately have 1: "suffix (toks s2) (toks s)" by (rule suffix_order.trans)
  from parseIf_cond_block_stops [OF cb] obtain t
    where t: "getKind t = Token_KW_end" "toks s2 = t # toks (advance s2)"
    using Tok_advance_Cons [of s2 Token_KW_end] by auto
  from parseIf_elifs_passes_end [OF el] show ?thesis
  proof
    assume "s_e = advance s2"
    with t 1 show ?thesis by auto
  next
    assume "\<exists>t. getKind t = Token_KW_end \<and> suffix (t # toks s_e) (toks (advance s2))"
    then obtain t' where "getKind t' = Token_KW_end" "suffix (t' # toks s_e) (toks (advance s2))"
      by blast
    moreover have "suffix (toks (advance s2)) (toks s)"
      using 1 by (rule suffix_advance)
    ultimately show ?thesis by (blast intro: suffix_order.trans)
  qed
qed

lemma parseIf_passes_end:
  assumes "parseIf n s = Some (Some i, s')"
  shows "\<exists>p s_e t. parseIf_elif_part n s = Some (Some p, s_e)
           \<and> getKind t = Token_KW_end \<and> suffix (t # toks s_e) (toks s)
           \<and> haveElse s' = (getKind (Tok s_e) = Token_KW_else)
           \<and> (if haveElse s' then suffix (toks s') (toks s_e) \<and> getKind (Tok s') = Token_KW_end
               else s' = s_e)"
proof -
  from assms obtain p s_e r where ep: "parseIf_elif_part n s = Some (Some p, s_e)"
    and el: "parseIf_else n s_e = Some (Some r, s')"
    by (auto simp: parseIf_eq seq0_def split: option.splits)
  from parseIf_elif_part_stops [OF ep] have h: "\<not> haveElse s_e" by simp
  from parseIf_elif_part_passes_end [OF ep] obtain t
    where t: "getKind t = Token_KW_end" "suffix (t # toks s_e) (toks s)" by blast
  from leaves_suffixD [OF parseIf_else_suffix [OF suffix_order.refl] el]
  have sf: "suffix (toks s') (toks s_e)" .
  note c = parseIf_else_stops [OF el]
  have 2: "haveElse s' = (getKind (Tok s_e) = Token_KW_else)"
    using h c by (cases "getKind (Tok s_e) = Token_KW_else") simp_all
  have 4: "if haveElse s' then suffix (toks s') (toks s_e) \<and> getKind (Tok s') = Token_KW_end
           else s' = s_e"
    using h c sf by (cases "getKind (Tok s_e) = Token_KW_else") simp_all
  from ep t 2 4 show ?thesis by blast
qed

section \<open>What the loop returns after a statement\<close>

lemma parseStatement_more_fuel:
  "parseStatement ext n s = Some r \<Longrightarrow> n \<le> m \<Longrightarrow> parseStatement ext m s = Some r"
  using fuel_mono [of "\<lambda>n. parseStatement ext n s"] parseStatement_fuel_Suc by blast

lemma parseProgram_loop_more_fuel:
  "parseProgram_loop ext n data s = Some r \<Longrightarrow> n \<le> m \<Longrightarrow> parseProgram_loop ext m data s = Some r"
  using fuel_mono [of "\<lambda>n. parseProgram_loop ext n data s"] parseProgram_loop_fuel_Suc by blast

lemma parseProgram_loop_step:
  assumes "getKind (Tok s) \<noteq> Token_eoi"
    and "parseStatement ext n (s\<lparr>haveElse := True\<rparr>) = Some (Some node, s1)"
  shows "parseProgram_loop ext (Suc n) data s
    = parseProgram_loop ext n (data @ [node]) (if haveElse s1 then advance s1 else s1)"
  using assms by (simp add: parseProgram_loop_Suc trial_def)

lemma parseProgram_loop_last:
  assumes "getKind (Tok s) \<noteq> Token_eoi"
    and "parseStatement ext n (s\<lparr>haveElse := True\<rparr>) = Some (Some node, s1)"
    and "getKind (Tok (if haveElse s1 then advance s1 else s1)) = Token_eoi"
  shows "parseProgram_loop ext (Suc (Suc n)) data s
    = Some (Some (Program (data @ [node])), if haveElse s1 then advance s1 else s1)"
proof -
  from assms(2) have "parseStatement ext (Suc n) (s\<lparr>haveElse := True\<rparr>) = Some (Some node, s1)"
    by (rule parseStatement_more_fuel) simp
  with assms(1) have "parseProgram_loop ext (Suc (Suc n)) data s
    = parseProgram_loop ext (Suc n) (data @ [node]) (if haveElse s1 then advance s1 else s1)"
    by (rule parseProgram_loop_step)
  also have "\<dots> = Some (Some (Program (data @ [node])), if haveElse s1 then advance s1 else s1)"
    using assms(3) by (simp add: parseProgram_loop_Suc)
  finally show ?thesis .
qed

lemma parseProgram_loop_result:
  assumes "getKind (Tok s) \<noteq> Token_eoi"
    and "parseStatement ext n (s\<lparr>haveElse := True\<rparr>) = Some (Some node, s1)"
    and "parseProgram_loop ext m (data @ [node]) (if haveElse s1 then advance s1 else s1) = Some r"
  shows "parseProgram_loop ext (Suc (max n m)) data s = Some r"
proof -
  from assms(2) have "parseStatement ext (max n m) (s\<lparr>haveElse := True\<rparr>) = Some (Some node, s1)"
    by (rule parseStatement_more_fuel) simp
  with assms(1) have "parseProgram_loop ext (Suc (max n m)) data s
    = parseProgram_loop ext (max n m) (data @ [node]) (if haveElse s1 then advance s1 else s1)"
    by (rule parseProgram_loop_step)
  also from assms(3) have "\<dots> = Some r"
    by (rule parseProgram_loop_more_fuel) simp
  finally show ?thesis .
qed


lemma parseStatement_if:
  assumes "getKind (Tok s) = Token_KW_if" and "parseStatement ext n s = Some (Some node, s1)"
  shows "\<exists>i. parseIf n s = Some (Some i, s1)"
proof (cases "parseIf n s")
  case None
  with assms show ?thesis by (simp add: parseStatement_eq map_result_def)
next
  case (Some q)
  obtain y s' where "q = (y, s')" by (cases q)
  with Some assms show ?thesis by (cases y) (simp_all add: parseStatement_eq map_result_def)
qed

lemma parseStatement_absent_routine:
  assumes "getKind (Tok s) \<in> {Token_KW_while, Token_KW_for, Token_KW_print}"
    and "parseStatement ext n s = Some (Some node, s1)"
  shows "s1 = snd (parseWhile ext s) \<or> s1 = snd (parseFor ext s) \<or> s1 = snd (parsePrint ext s)"
proof -
  consider "getKind (Tok s) = Token_KW_while" | "getKind (Tok s) = Token_KW_for"
    | "getKind (Tok s) = Token_KW_print"
    using assms(1) by blast
  then show ?thesis
  proof cases
    case 1
    with assms(2) show ?thesis by (simp add: parseStatement_eq)
  next
    case 2
    with assms(2) show ?thesis by (simp add: parseStatement_eq)
  next
    case 3
    with assms(2) show ?thesis by (simp add: parseStatement_eq)
  qed
qed

section \<open>The statement loop\<close>

text \<open>
  C8. A top-level statement is parsed at a token that is not end of input: the \<^verbatim>\<open>switch\<close>
  of \<open>parseProgram\<close>, entered with \<^verbatim>\<open>haveElse\<close> set, yields the node in the state \<open>s1\<close>. The
  loop continues in \<open>s2\<close>, which is \<open>s1\<close> advanced by one token when \<^verbatim>\<open>haveElse\<close> is still
  set and \<open>s1\<close> itself otherwise: this signal alone decides. The loop appends the node.
  When \<open>s2\<close> is at end of input it returns the Program of the nodes collected so far and
  this node; otherwise it returns what it returns from \<open>s2\<close> with the node appended, and
  with fuel \<open>4 * length (toks s) + 9\<close> it does return, provided that \<^verbatim>\<open>parseWhile\<close>,
  \<^verbatim>\<open>parseFor\<close> and \<^verbatim>\<open>parsePrint\<close> consume a token whenever they build a node.

  A declaration, a unary statement and an assignment leave \<^verbatim>\<open>haveElse\<close> set and stop at
  their terminator \<^verbatim>\<open>;\<close>: it is the token between \<open>s1\<close> and \<open>s2\<close>. \<open>parseIf\<close> has passed
  the \<^verbatim>\<open>end\<close> of its then block or of its last elif clause itself (\<open>s_e\<close> is the state
  right after that \<^verbatim>\<open>end\<close>, a token of the input), and leaves in \<^verbatim>\<open>haveElse\<close> whether the
  next token was \<^verbatim>\<open>else\<close>. Without an else clause it stops at \<open>s_e\<close> and the loop does not
  advance; with an else clause it stops at the \<^verbatim>\<open>end\<close> of the else block, and that \<^verbatim>\<open>end\<close>
  is the token between \<open>s1\<close> and \<open>s2\<close>.

  \<^verbatim>\<open>parseWhile\<close>, \<^verbatim>\<open>parseFor\<close> and \<^verbatim>\<open>parsePrint\<close> are not defined in \<^verbatim>\<open>Parser.cpp\<close>, where
  \<^verbatim>\<open>haveElse\<close> is written by \<open>parseProgram\<close> and \<open>parseIf\<close> only. If the three routines do
  not write it either, the loop passes the token at which they stop.
\<close>

theorem C8_loop_passes_the_terminator:
  assumes st: "getKind (Tok s) \<noteq> Token_eoi"
      "parseStatement ext n (s\<lparr>haveElse := True\<rparr>) = Some (Some node, s1)"
    and nx: "s2 = (if haveElse s1 then advance s1 else s1)"
  shows "parseProgram_loop ext (Suc n) data s = parseProgram_loop ext n (data @ [node]) s2
    \<and> (getKind (Tok s2) = Token_eoi \<longrightarrow>
         parseProgram_loop ext (Suc (Suc n)) data s = Some (Some (Program (data @ [node])), s2))
    \<and> (parseProgram_loop ext m (data @ [node]) s2 = Some r \<longrightarrow>
         parseProgram_loop ext (Suc (max n m)) data s = Some r)
    \<and> (getKind (Tok s) \<in> {Token_KW_int, Token_KW_bool, Token_ident} \<longrightarrow>
         haveElse s1 \<and> (\<exists>t. getKind t = Token_semicolon \<and> toks s1 = t # toks s2))
    \<and> (getKind (Tok s) = Token_KW_if \<longrightarrow>
         (\<exists>p s_e t. parseIf_elif_part n (s\<lparr>haveElse := True\<rparr>) = Some (Some p, s_e)
            \<and> getKind t = Token_KW_end \<and> suffix (t # toks s_e) (toks s)
            \<and> haveElse s1 = (getKind (Tok s_e) = Token_KW_else)
            \<and> (if haveElse s1
                then suffix (toks s1) (toks s_e)
                     \<and> (\<exists>t'. getKind t' = Token_KW_end \<and> toks s1 = t' # toks s2)
                else s1 = s_e \<and> s2 = s1)))
    \<and> (getKind (Tok s) \<in> {Token_KW_while, Token_KW_for, Token_KW_print}
        \<and> (\<forall>s0. haveElse (snd (parseWhile ext s0)) = haveElse s0)
        \<and> (\<forall>s0. haveElse (snd (parseFor ext s0)) = haveElse s0)
        \<and> (\<forall>s0. haveElse (snd (parsePrint ext s0)) = haveElse s0) \<longrightarrow>
         haveElse s1 \<and> s2 = advance s1)
    \<and> (consuming (parseWhile ext) \<and> consuming (parseFor ext) \<and> consuming (parsePrint ext)
        \<and> 4 * length (toks s) + 9 \<le> m \<longrightarrow> returns (parseProgram_loop ext m data s))"
proof -
  have 1: "parseProgram_loop ext (Suc n) data s = parseProgram_loop ext n (data @ [node]) s2"
    unfolding nx using st by (rule parseProgram_loop_step)
  have 2: "getKind (Tok s2) = Token_eoi \<longrightarrow>
         parseProgram_loop ext (Suc (Suc n)) data s = Some (Some (Program (data @ [node])), s2)"
  proof
    assume "getKind (Tok s2) = Token_eoi"
    with st show "parseProgram_loop ext (Suc (Suc n)) data s
        = Some (Some (Program (data @ [node])), s2)"
      unfolding nx by (rule parseProgram_loop_last)
  qed
  have 3: "parseProgram_loop ext m (data @ [node]) s2 = Some r \<longrightarrow>
         parseProgram_loop ext (Suc (max n m)) data s = Some r"
  proof
    assume "parseProgram_loop ext m (data @ [node]) s2 = Some r"
    with st show "parseProgram_loop ext (Suc (max n m)) data s = Some r"
      unfolding nx by (rule parseProgram_loop_result)
  qed
  have 4: "getKind (Tok s) \<in> {Token_KW_int, Token_KW_bool, Token_ident} \<longrightarrow>
         haveElse s1 \<and> (\<exists>t. getKind t = Token_semicolon \<and> toks s1 = t # toks s2)"
  proof
    assume "getKind (Tok s) \<in> {Token_KW_int, Token_KW_bool, Token_ident}"
    then have k: "getKind (Tok (s\<lparr>haveElse := True\<rparr>)) \<in> {Token_KW_int, Token_KW_bool, Token_ident}"
      by simp
    from parseStatement_terminator [OF k st(2)]
    have h: "haveElse s1" and t: "getKind (Tok s1) = Token_semicolon" by simp_all
    from h nx have "s2 = advance s1" by simp
    with Tok_advance_Cons [OF t] h
    show "haveElse s1 \<and> (\<exists>t. getKind t = Token_semicolon \<and> toks s1 = t # toks s2)" by simp
  qed
  have 5: "getKind (Tok s) = Token_KW_if \<longrightarrow>
         (\<exists>p s_e t. parseIf_elif_part n (s\<lparr>haveElse := True\<rparr>) = Some (Some p, s_e)
            \<and> getKind t = Token_KW_end \<and> suffix (t # toks s_e) (toks s)
            \<and> haveElse s1 = (getKind (Tok s_e) = Token_KW_else)
            \<and> (if haveElse s1
                then suffix (toks s1) (toks s_e)
                     \<and> (\<exists>t'. getKind t' = Token_KW_end \<and> toks s1 = t' # toks s2)
                else s1 = s_e \<and> s2 = s1))"
  proof
    assume "getKind (Tok s) = Token_KW_if"
    then have "getKind (Tok (s\<lparr>haveElse := True\<rparr>)) = Token_KW_if" by simp
    from parseStatement_if [OF this st(2)]
    obtain i where "parseIf n (s\<lparr>haveElse := True\<rparr>) = Some (Some i, s1)" ..
    from parseIf_passes_end [OF this] obtain p s_e t
      where e: "parseIf_elif_part n (s\<lparr>haveElse := True\<rparr>) = Some (Some p, s_e)"
        and t: "getKind t = Token_KW_end"
        and u: "suffix (t # toks s_e) (toks (s\<lparr>haveElse := True\<rparr>))"
        and h: "haveElse s1 = (getKind (Tok s_e) = Token_KW_else)"
        and c: "if haveElse s1 then suffix (toks s1) (toks s_e) \<and> getKind (Tok s1) = Token_KW_end
                else s1 = s_e"
      by (elim exE conjE)
    from u have u': "suffix (t # toks s_e) (toks s)" by simp
    have d: "if haveElse s1
          then suffix (toks s1) (toks s_e)
               \<and> (\<exists>t'. getKind t' = Token_KW_end \<and> toks s1 = t' # toks s2)
          else s1 = s_e \<and> s2 = s1"
    proof (cases "haveElse s1")
      case True
      with c have a: "suffix (toks s1) (toks s_e)" and b: "getKind (Tok s1) = Token_KW_end"
        by simp_all
      from True nx have "s2 = advance s1" by simp
      with Tok_advance_Cons [OF b] a True show ?thesis by simp
    next
      case False
      with c nx show ?thesis by simp
    qed
    from e t u' h d
    show "\<exists>p s_e t. parseIf_elif_part n (s\<lparr>haveElse := True\<rparr>) = Some (Some p, s_e)
            \<and> getKind t = Token_KW_end \<and> suffix (t # toks s_e) (toks s)
            \<and> haveElse s1 = (getKind (Tok s_e) = Token_KW_else)
            \<and> (if haveElse s1
                then suffix (toks s1) (toks s_e)
                     \<and> (\<exists>t'. getKind t' = Token_KW_end \<and> toks s1 = t' # toks s2)
                else s1 = s_e \<and> s2 = s1)"
      by (intro exI conjI)
  qed
  have 6: "getKind (Tok s) \<in> {Token_KW_while, Token_KW_for, Token_KW_print}
        \<and> (\<forall>s0. haveElse (snd (parseWhile ext s0)) = haveElse s0)
        \<and> (\<forall>s0. haveElse (snd (parseFor ext s0)) = haveElse s0)
        \<and> (\<forall>s0. haveElse (snd (parsePrint ext s0)) = haveElse s0) \<longrightarrow>
         haveElse s1 \<and> s2 = advance s1"
  proof
    assume a: "getKind (Tok s) \<in> {Token_KW_while, Token_KW_for, Token_KW_print}
        \<and> (\<forall>s0. haveElse (snd (parseWhile ext s0)) = haveElse s0)
        \<and> (\<forall>s0. haveElse (snd (parseFor ext s0)) = haveElse s0)
        \<and> (\<forall>s0. haveElse (snd (parsePrint ext s0)) = haveElse s0)"
    then have k: "getKind (Tok (s\<lparr>haveElse := True\<rparr>)) \<in> {Token_KW_while, Token_KW_for, Token_KW_print}"
      by simp
    from a have w: "haveElse (snd (parseWhile ext (s\<lparr>haveElse := True\<rparr>)))"
      and f: "haveElse (snd (parseFor ext (s\<lparr>haveElse := True\<rparr>)))"
      and p: "haveElse (snd (parsePrint ext (s\<lparr>haveElse := True\<rparr>)))"
      by simp_all
    from parseStatement_absent_routine [OF k st(2)] w f p have "haveElse s1" by (elim disjE) simp_all
    with nx show "haveElse s1 \<and> s2 = advance s1" by simp
  qed
  have 7: "consuming (parseWhile ext) \<and> consuming (parseFor ext) \<and> consuming (parsePrint ext)
        \<and> 4 * length (toks s) + 9 \<le> m \<longrightarrow> returns (parseProgram_loop ext m data s)"
  proof
    assume "consuming (parseWhile ext) \<and> consuming (parseFor ext) \<and> consuming (parsePrint ext)
        \<and> 4 * length (toks s) + 9 \<le> m"
    then show "returns (parseProgram_loop ext m data s)"
      by (elim conjE) (rule parseProgram_loop_returns)
  qed
  from 1 2 3 4 5 6 7 show ?thesis by (intro conjI)
qed

text \<open>
  Four programs. \<^verbatim>\<open>x ++ ;\<close>: the statement stops at \<^verbatim>\<open>;\<close>, the loop passes it and returns the
  Program of one node. \<^verbatim>\<open>if true : begin end y ++ ;\<close>: no else clause, \<open>parseIf\<close> has passed
  \<^verbatim>\<open>end\<close>, the loop does not advance and parses \<^verbatim>\<open>y ++ ;\<close> next.
  \<^verbatim>\<open>if true : begin end else : begin end\<close>: \<open>parseIf\<close> stops at the \<^verbatim>\<open>end\<close> of the else block and
  the loop passes it. \<^verbatim>\<open>while end\<close>, with a \<open>parseWhile\<close> that consumes the keyword and does
  not write \<^verbatim>\<open>haveElse\<close>: the loop passes the token at which the routine stopped.
\<close>

theorem C8_loop_witness:
  "parseProgram_loop no_routines 31 []
     (start [tok Token_ident ''x'', tok Token_plus_plus ''++'', tok Token_semicolon '';''])
     = Some (Some (Program [AST_UnaryOp (UnaryOp UnaryOp_Plus_plus ''x'')]), \<lparr>toks = [], diags = [], haveElse = True\<rparr>)
   \<and> (\<exists>t. getKind t = Token_semicolon
         \<and> toks \<lparr>toks = [tok Token_semicolon '';''], diags = [], haveElse = True\<rparr> = t # toks \<lparr>toks = [], diags = [], haveElse = True\<rparr>)
   \<and> returns (parseProgram_loop no_routines 21 []
         (start [tok Token_ident ''x'', tok Token_plus_plus ''++'', tok Token_semicolon '';'']))
   \<and> parseProgram_loop no_routines 30 []
     (start [tok Token_KW_if ''if'', tok Token_true ''true'', tok Token_colon '':'',
             tok Token_KW_begin ''begin'', tok Token_KW_end ''end'',
             tok Token_ident ''y'', tok Token_plus_plus ''++'', tok Token_semicolon '';''])
     = Some (Some (Program [AST_IfStmt (IfStmt (ComparisonNode None None None ''true'') [] [] []),
                            AST_UnaryOp (UnaryOp UnaryOp_Plus_plus ''y'')]), \<lparr>toks = [], diags = [], haveElse = True\<rparr>)
   \<and> (\<exists>t. getKind t = Token_KW_end
         \<and> suffix (t # toks (start [tok Token_ident ''y'', tok Token_plus_plus ''++'', tok Token_semicolon '';'']))
              (toks (start [tok Token_KW_if ''if'', tok Token_true ''true'', tok Token_colon '':'',
             tok Token_KW_begin ''begin'', tok Token_KW_end ''end'',
             tok Token_ident ''y'', tok Token_plus_plus ''++'', tok Token_semicolon '';''])))
   \<and> parseProgram_loop no_routines 31 []
     (start [tok Token_KW_if ''if'', tok Token_true ''true'', tok Token_colon '':'',
             tok Token_KW_begin ''begin'', tok Token_KW_end ''end'',
             tok Token_KW_else ''else'', tok Token_colon '':'',
             tok Token_KW_begin ''begin'', tok Token_KW_end ''end''])
     = Some (Some (Program [AST_IfStmt (IfStmt (ComparisonNode None None None ''true'') [] [] [])]), \<lparr>toks = [], diags = [], haveElse = True\<rparr>)
   \<and> (\<exists>s_e t. getKind t = Token_KW_end
         \<and> suffix (t # toks s_e)
              (toks (start [tok Token_KW_if ''if'', tok Token_true ''true'', tok Token_colon '':'',
             tok Token_KW_begin ''begin'', tok Token_KW_end ''end'',
             tok Token_KW_else ''else'', tok Token_colon '':'',
             tok Token_KW_begin ''begin'', tok Token_KW_end ''end'']))
         \<and> getKind (Tok s_e) = Token_KW_else
         \<and> suffix (toks \<lparr>toks = [tok Token_KW_end ''end''], diags = [], haveElse = True\<rparr>) (toks s_e))
   \<and> parseProgram_loop
         (\<lparr>parseWhile = (\<lambda>s. (Some (WhileStmt (ComparisonNode None None None ''true'') []), advance s)),
          parseFor = panic, parsePrint = panic\<rparr> :: (unit, unit) routines) 2 []
         (start [tok Token_KW_while ''while'', tok Token_KW_end ''end''])
     = Some (Some (Program [AST_WhileStmt (WhileStmt (ComparisonNode None None None ''true'') [])]), \<lparr>toks = [], diags = [], haveElse = True\<rparr>)"
proof -
  let ?done = "\<lparr>toks = [], diags = [], haveElse = True\<rparr>"
  let ?A = "start [tok Token_ident ''x'', tok Token_plus_plus ''++'', tok Token_semicolon '';'']"
  let ?A1 = "\<lparr>toks = [tok Token_semicolon '';''], diags = [], haveElse = True\<rparr>"
  have a1: "getKind (Tok ?A) \<noteq> Token_eoi" by code_simp
  have a2: "parseStatement no_routines 29 (?A\<lparr>haveElse := True\<rparr>) = Some (Some (AST_UnaryOp (UnaryOp UnaryOp_Plus_plus ''x'')), ?A1)"
    by code_simp
  have a3: "?done = (if haveElse ?A1 then advance ?A1 else ?A1)" by code_simp
  note A = C8_loop_passes_the_terminator [where data = "[]" and m = 21, OF a1 a2 a3]
  have a4: "getKind (Tok ?done) = Token_eoi" by code_simp
  have a5: "getKind (Tok ?A) \<in> {Token_KW_int, Token_KW_bool, Token_ident}"
    by (simp add: start_def Tok_def tok_def)
  have a6: "consuming (parseWhile no_routines) \<and> consuming (parseFor no_routines)
      \<and> consuming (parsePrint no_routines) \<and> 4 * length (toks ?A) + 9 \<le> 21"
    by (simp add: no_routines_def consuming_panic start_def)
  from A [THEN conjunct2, THEN conjunct1] a4
  have "parseProgram_loop no_routines (Suc (Suc 29)) [] ?A
      = Some (Some (Program ([] @ [AST_UnaryOp (UnaryOp UnaryOp_Plus_plus ''x'')])), ?done)"
    by (rule mp)
  then have R1: "parseProgram_loop no_routines 31 [] ?A
      = Some (Some (Program [AST_UnaryOp (UnaryOp UnaryOp_Plus_plus ''x'')]), ?done)"
    by simp
  from A [THEN conjunct2, THEN conjunct2, THEN conjunct2, THEN conjunct1] a5
  have "haveElse ?A1 \<and> (\<exists>t. getKind t = Token_semicolon \<and> toks ?A1 = t # toks ?done)"
    by (rule mp)
  then have R2: "\<exists>t. getKind t = Token_semicolon \<and> toks ?A1 = t # toks ?done"
    by (rule conjunct2)
  from A [THEN conjunct2, THEN conjunct2, THEN conjunct2, THEN conjunct2, THEN conjunct2, THEN conjunct2] a6
  have R3: "returns (parseProgram_loop no_routines 21 [] ?A)"
    by (rule mp)
  let ?B = "start [tok Token_KW_if ''if'', tok Token_true ''true'', tok Token_colon '':'',
             tok Token_KW_begin ''begin'', tok Token_KW_end ''end'',
             tok Token_ident ''y'', tok Token_plus_plus ''++'', tok Token_semicolon '';'']"
  let ?B1 = "start [tok Token_ident ''y'', tok Token_plus_plus ''++'', tok Token_semicolon '';'']"
  let ?rB = "(Some (Program [AST_IfStmt (IfStmt (ComparisonNode None None None ''true'') [] [] []), AST_UnaryOp (UnaryOp UnaryOp_Plus_plus ''y'')]), ?done)"
  have b1: "getKind (Tok ?B) \<noteq> Token_eoi" by code_simp
  have b2: "parseStatement no_routines 29 (?B\<lparr>haveElse := True\<rparr>) = Some (Some (AST_IfStmt (IfStmt (ComparisonNode None None None ''true'') [] [] [])), ?B1)"
    by code_simp
  have b3: "?B1 = (if haveElse ?B1 then advance ?B1 else ?B1)" by (simp add: start_def)
  note B = C8_loop_passes_the_terminator [where data = "[]" and m = 29 and r = ?rB, OF b1 b2 b3]
  have b4: "parseProgram_loop no_routines 29 ([] @ [AST_IfStmt (IfStmt (ComparisonNode None None None ''true'') [] [] [])]) ?B1 = Some ?rB"
    by code_simp
  have b5: "getKind (Tok ?B) = Token_KW_if" by (simp add: start_def Tok_def tok_def)
  from B [THEN conjunct2, THEN conjunct2, THEN conjunct1] b4
  have "parseProgram_loop no_routines (Suc (max 29 29)) [] ?B = Some ?rB"
    by (rule mp)
  then have R4: "parseProgram_loop no_routines 30 [] ?B = Some ?rB"
    by simp
  from B [THEN conjunct2, THEN conjunct2, THEN conjunct2, THEN conjunct2, THEN conjunct1] b5
  have "\<exists>p s_e t. parseIf_elif_part 29 (?B\<lparr>haveElse := True\<rparr>) = Some (Some p, s_e)
            \<and> getKind t = Token_KW_end \<and> suffix (t # toks s_e) (toks ?B)
            \<and> haveElse ?B1 = (getKind (Tok s_e) = Token_KW_else)
            \<and> (if haveElse ?B1
                then suffix (toks ?B1) (toks s_e)
                     \<and> (\<exists>t'. getKind t' = Token_KW_end \<and> toks ?B1 = t' # toks ?B1)
                else ?B1 = s_e \<and> ?B1 = ?B1)"
    by (rule mp)
  then obtain s_e t where bt: "getKind t = Token_KW_end" and bs: "suffix (t # toks s_e) (toks ?B)"
    and bc: "if haveElse ?B1
                then suffix (toks ?B1) (toks s_e)
                     \<and> (\<exists>t'. getKind t' = Token_KW_end \<and> toks ?B1 = t' # toks ?B1)
                else ?B1 = s_e \<and> ?B1 = ?B1"
    by (elim exE conjE)
  have "\<not> haveElse ?B1" by (simp add: start_def)
  with bc have "?B1 = s_e" by simp
  with bs have "suffix (t # toks ?B1) (toks ?B)" by simp
  with bt have R5: "\<exists>t. getKind t = Token_KW_end \<and> suffix (t # toks ?B1) (toks ?B)"
    by (intro exI conjI)
  let ?C = "start [tok Token_KW_if ''if'', tok Token_true ''true'', tok Token_colon '':'',
             tok Token_KW_begin ''begin'', tok Token_KW_end ''end'',
             tok Token_KW_else ''else'', tok Token_colon '':'',
             tok Token_KW_begin ''begin'', tok Token_KW_end ''end'']"
  let ?C1 = "\<lparr>toks = [tok Token_KW_end ''end''], diags = [], haveElse = True\<rparr>"
  have c1: "getKind (Tok ?C) \<noteq> Token_eoi" by code_simp
  have c2: "parseStatement no_routines 29 (?C\<lparr>haveElse := True\<rparr>) = Some (Some (AST_IfStmt (IfStmt (ComparisonNode None None None ''true'') [] [] [])), ?C1)"
    by code_simp
  have c3: "?done = (if haveElse ?C1 then advance ?C1 else ?C1)" by code_simp
  note C = C8_loop_passes_the_terminator [where data = "[]", OF c1 c2 c3]
  have c5: "getKind (Tok ?C) = Token_KW_if" by (simp add: start_def Tok_def tok_def)
  from C [THEN conjunct2, THEN conjunct1] a4
  have "parseProgram_loop no_routines (Suc (Suc 29)) [] ?C
      = Some (Some (Program ([] @ [AST_IfStmt (IfStmt (ComparisonNode None None None ''true'') [] [] [])])), ?done)"
    by (rule mp)
  then have R6: "parseProgram_loop no_routines 31 [] ?C
      = Some (Some (Program [AST_IfStmt (IfStmt (ComparisonNode None None None ''true'') [] [] [])]), ?done)"
    by simp
  from C [THEN conjunct2, THEN conjunct2, THEN conjunct2, THEN conjunct2, THEN conjunct1] c5
  have "\<exists>p s_e t. parseIf_elif_part 29 (?C\<lparr>haveElse := True\<rparr>) = Some (Some p, s_e)
            \<and> getKind t = Token_KW_end \<and> suffix (t # toks s_e) (toks ?C)
            \<and> haveElse ?C1 = (getKind (Tok s_e) = Token_KW_else)
            \<and> (if haveElse ?C1
                then suffix (toks ?C1) (toks s_e)
                     \<and> (\<exists>t'. getKind t' = Token_KW_end \<and> toks ?C1 = t' # toks ?done)
                else ?C1 = s_e \<and> ?done = ?C1)"
    by (rule mp)
  then obtain s_e' t' where ct: "getKind t' = Token_KW_end"
    and cs: "suffix (t' # toks s_e') (toks ?C)"
    and ch: "haveElse ?C1 = (getKind (Tok s_e') = Token_KW_else)"
    and cc: "if haveElse ?C1
                then suffix (toks ?C1) (toks s_e')
                     \<and> (\<exists>t'. getKind t' = Token_KW_end \<and> toks ?C1 = t' # toks ?done)
                else ?C1 = s_e' \<and> ?done = ?C1"
    by (elim exE conjE)
  from ch have ce: "getKind (Tok s_e') = Token_KW_else" by simp
  from cc have cf: "suffix (toks ?C1) (toks s_e')" by simp
  from ct cs ce cf have R7: "\<exists>s_e t. getKind t = Token_KW_end \<and> suffix (t # toks s_e) (toks ?C)
         \<and> getKind (Tok s_e) = Token_KW_else \<and> suffix (toks ?C1) (toks s_e)"
    by (intro exI conjI)
  let ?ext = "\<lparr>parseWhile = (\<lambda>s. (Some (WhileStmt (ComparisonNode None None None ''true'') []), advance s)),
          parseFor = panic, parsePrint = panic\<rparr> :: (unit, unit) routines"
  let ?D = "start [tok Token_KW_while ''while'', tok Token_KW_end ''end'']"
  have d1: "getKind (Tok ?D) \<noteq> Token_eoi" by code_simp
  have d2: "parseStatement ?ext 0 (?D\<lparr>haveElse := True\<rparr>) = Some (Some (AST_WhileStmt (WhileStmt (ComparisonNode None None None ''true'') [])), ?C1)"
    by code_simp
  note D = C8_loop_passes_the_terminator [where data = "[]", OF d1 d2 c3]
  have d6: "getKind (Tok ?D) \<in> {Token_KW_while, Token_KW_for, Token_KW_print}
        \<and> (\<forall>s0. haveElse (snd (parseWhile ?ext s0)) = haveElse s0)
        \<and> (\<forall>s0. haveElse (snd (parseFor ?ext s0)) = haveElse s0)
        \<and> (\<forall>s0. haveElse (snd (parsePrint ?ext s0)) = haveElse s0)"
    by (simp add: start_def Tok_def tok_def panic_def advance_def recover_def error_def)
  from D [THEN conjunct2, THEN conjunct2, THEN conjunct2, THEN conjunct2, THEN conjunct2, THEN conjunct1] d6
  have "haveElse ?C1 \<and> ?done = advance ?C1"
    by (rule mp)
  from D [THEN conjunct2, THEN conjunct1] a4
  have "parseProgram_loop ?ext (Suc (Suc 0)) [] ?D
      = Some (Some (Program ([] @ [AST_WhileStmt (WhileStmt (ComparisonNode None None None ''true'') [])])), ?done)"
    by (rule mp)
  then have R8: "parseProgram_loop ?ext 2 [] ?D
      = Some (Some (Program [AST_WhileStmt (WhileStmt (ComparisonNode None None None ''true'') [])]), ?done)"
    by (simp add: numeral_2_eq_2)
  from R1 R2 R3 R4 R5 R6 R7 R8 show ?thesis by (intro conjI)
qed


section \<open>Errors\<close>

text \<open>
  C2. The claim: the first routine that fails reports one diagnostic, its callers add
  none, the input is discarded and \<open>parse\<close> returns the null pointer. In
  \<^verbatim>\<open>int a = + ;\<close> the initialiser is a sign without an operand. After the \<^verbatim>\<open>+\<close>,
  \<open>parseFinal\<close> jumps to \<^verbatim>\<open>_error\<close> without calling \<^verbatim>\<open>error()\<close>, and no caller reports:
  with enough fuel \<open>parse\<close> returns the null pointer and has reported nothing, and
  with any fuel it has reported nothing. The other error paths of \<open>parseFinal\<close> do
  report: at \<^verbatim>\<open>;\<close> alone the \<^verbatim>\<open>default:\<close> case reports the token, at \<^verbatim>\<open>+ ;\<close> nothing is
  reported.
\<close>

theorem C2_sign_without_operand_is_not_reported:
  "parse no_routines 30
     (start [tok Token_KW_int ''int'', tok Token_ident ''a'', tok Token_assign ''='',
             tok Token_plus ''+'', tok Token_semicolon '';''])
   = Some (None, \<lparr>toks = [], diags = [], haveElse = True\<rparr>)
   \<and> (\<forall>n. parse no_routines n
        (start [tok Token_KW_int ''int'', tok Token_ident ''a'', tok Token_assign ''='',
             tok Token_plus ''+'', tok Token_semicolon '';''])
      \<in> {None, Some (None, \<lparr>toks = [], diags = [], haveElse = True\<rparr>)})
   \<and> parseFinal 1 (start [tok Token_plus ''+'', tok Token_semicolon '';''])
     = Some (None, \<lparr>toks = [], diags = [], haveElse = False\<rparr>)
   \<and> parseFinal 1 (start [tok Token_semicolon '';''])
     = Some (None, \<lparr>toks = [], diags = [tok Token_semicolon '';''], haveElse = False\<rparr>)"
proof -
  let ?s = "start [tok Token_KW_int ''int'', tok Token_ident ''a'', tok Token_assign ''='',
             tok Token_plus ''+'', tok Token_semicolon '';'']"
  let ?r = "(None, \<lparr>toks = [], diags = [], haveElse = True\<rparr>)"
  have at30: "parse no_routines 30 ?s = Some ?r"
    by code_simp
  have every: "parse no_routines n ?s \<in> {None, Some ?r}" for n
  proof (cases "parse no_routines n ?s")
    case None
    then show ?thesis by simp
  next
    case (Some r)
    then have "parse no_routines (max n 30) ?s = Some r"
      by (rule parse_mono) simp
    moreover from at30 have "parse no_routines (max n 30) ?s = Some ?r"
      by (rule parse_mono) simp
    ultimately show ?thesis using Some by simp
  qed
  have silent: "parseFinal 1 (start [tok Token_plus ''+'', tok Token_semicolon '';''])
     = Some (None, \<lparr>toks = [], diags = [], haveElse = False\<rparr>)"
    by code_simp
  have reported: "parseFinal 1 (start [tok Token_semicolon '';''])
     = Some (None, \<lparr>toks = [], diags = [tok Token_semicolon '';''], haveElse = False\<rparr>)"
    by code_simp
  from at30 every silent reported show ?thesis by blast
qed

text \<open>
  The callers do add diagnostics. For \<^verbatim>\<open>x + ;\<close> two are reported for the one error:
  \<open>parseAssign\<close> reports the \<^verbatim>\<open>+\<close>, and \<open>parseProgram\<close> reports again at end of input,
  because it tests for the terminator before it tests the pointer that \<open>parseAssign\<close>
  returned. In \<^verbatim>\<open>x = 1 + ;\<close> the trial parse of the right-hand side as a logic expression
  reports the \<^verbatim>\<open>;\<close>, the cursor is put back, and the parse as an arithmetic expression
  reports it again.
\<close>

lemma one_error_reported_twice:
  "parse no_routines 30
     (start [tok Token_ident ''x'', tok Token_plus ''+'', tok Token_semicolon '';''])
     = Some (None, \<lparr>toks = [],
                    diags = [tok Token_plus ''+'', \<lparr>getKind = Token_eoi, getText = []\<rparr>],
                    haveElse = True\<rparr>)
   \<and> parseAssign 30
     (start [tok Token_ident ''x'', tok Token_assign ''='', tok Token_number ''1'',
             tok Token_plus ''+'', tok Token_semicolon '';''])
     = Some (None, \<lparr>toks = [],
                    diags = [tok Token_semicolon '';'', tok Token_semicolon '';''],
                    haveElse = False\<rparr>)"
  by code_simp

text \<open>
  What the error paths do as the claim says. Every routine that returns the null pointer
  has discarded the rest of the input: the cursor is at end of input. When the routine of
  a top-level statement returns the null pointer, \<open>parseProgram\<close> returns the null
  pointer, and whatever \<open>parse\<close> returns, a Program or the null pointer, the cursor is at
  end of input: there is no Program for a part of the input. And \<open>parse\<close> does return:
  with fuel \<open>4 * length (toks s) + 9\<close> the model reaches the \<^verbatim>\<open>return\<close> of
  \<open>parseProgram\<close>, provided that \<^verbatim>\<open>parseWhile\<close>, \<^verbatim>\<open>parseFor\<close> and \<^verbatim>\<open>parsePrint\<close> consume a
  token whenever they build a node.
\<close>

lemma failure_discards_the_input:
  "fails_at_eoi (parseExpr n s) \<and> fails_at_eoi (parseTerm n s) \<and> fails_at_eoi (parseFactor n s)
   \<and> fails_at_eoi (parseFinal n s) \<and> fails_at_eoi (parseComparison n s)
   \<and> fails_at_eoi (parseLogic n s) \<and> fails_at_eoi (parseAssign n s)
   \<and> fails_at_eoi (parseIntDec n s) \<and> fails_at_eoi (parseBoolDec n s)
   \<and> fails_at_eoi (parseIf n s)
   \<and> (fst (parseUnary s) = None \<longrightarrow> getKind (Tok (snd (parseUnary s))) = Token_eoi)
   \<and> (getKind (Tok s) \<noteq> Token_eoi \<and> parseStatement ext n (s\<lparr>haveElse := True\<rparr>) = Some (None, s1)
        \<longrightarrow> parseProgram_loop ext (Suc n) data s = Some (None, recover s1))
   \<and> (parse ext n s = Some (r, s') \<longrightarrow> getKind (Tok s') = Token_eoi)
   \<and> (consuming (parseWhile ext) \<and> consuming (parseFor ext) \<and> consuming (parsePrint ext)
        \<and> 4 * length (toks s) + 9 \<le> n \<longrightarrow> returns (parse ext n s))"
proof -
  have t: "consuming (parseWhile ext) \<and> consuming (parseFor ext) \<and> consuming (parsePrint ext)
        \<and> 4 * length (toks s) + 9 \<le> n \<longrightarrow> returns (parse ext n s)"
    by (blast intro: parse_returns)
  have u: "fst (parseUnary s) = None \<longrightarrow> getKind (Tok (snd (parseUnary s))) = Token_eoi"
  proof
    assume "fst (parseUnary s) = None"
    then have "parseUnary s = (None, snd (parseUnary s))" by (cases "parseUnary s") simp
    then show "getKind (Tok (snd (parseUnary s))) = Token_eoi" by (rule parseUnary_fails)
  qed
  have l: "getKind (Tok s) \<noteq> Token_eoi \<and> parseStatement ext n (s\<lparr>haveElse := True\<rparr>) = Some (None, s1)
        \<longrightarrow> parseProgram_loop ext (Suc n) data s = Some (None, recover s1)"
    by (simp add: parseProgram_loop_Suc trial_def)
  have p: "parse ext n s = Some (r, s') \<longrightarrow> getKind (Tok s') = Token_eoi"
  proof
    assume "parse ext n s = Some (r, s')"
    then have "parseProgram_loop ext n [] s = Some (r, s')" by (simp add: parse_def parseProgram_def)
    then show "getKind (Tok s') = Token_eoi" by (rule parseProgram_loop_at_eoi)
  qed
  have i: "fails_at_eoi (parseIntDec n s)" unfolding parseIntDec_def by (rule parseDec_fails)
  have b: "fails_at_eoi (parseBoolDec n s)" unfolding parseBoolDec_def by (rule parseDec_fails)
  show ?thesis
    by (intro conjI parseExpr_fails parseTerm_fails parseFactor_fails parseFinal_fails
          parseComparison_fails parseLogic_fails parseAssign_fails parseIf_fails i b u l p t)
qed

end
